theory Spec2Isabelle
  imports Main "HOL-Library.Word"
begin

section \<open>Go values\<close>

type_synonym byte = "8 word"
type_synonym bytes = "byte list"
type_synonym uint32 = "32 word"
type_synonym uint64 = "64 word"
type_synonym int64 = "64 word"

text \<open>
  A Go call either returns or panics (an index out of range). An \<open>error\<close> result is a value:
  \<open>ErrKeyNotFound\<close> is the package variable of engine.go, \<open>Errorf\<close> an error made by
  \<open>fmt.Errorf\<close> with its message.
\<close>

datatype 'a outcome = Panic | Done 'a

datatype error = ErrKeyNotFound | Errorf string

text \<open>
  \<open>y.ValueStruct\<close> of the badger library: the record a table lookup returns. Its two byte
  slices may be nil, which is not the empty slice: \<open>None\<close> is nil, \<open>Some []\<close> is a slice of
  length 0.
\<close>

record ValueStruct =
  Meta :: byte
  UserMeta :: "bytes option"
  Value :: "bytes option"
  Version :: uint64

text \<open>\<open>len\<close> of a slice that may be nil.\<close>

definition sliceLen :: "bytes option \<Rightarrow> nat" where
  "sliceLen b = (case b of None \<Rightarrow> 0 | Some bs \<Rightarrow> length bs)"

text \<open>The zero value \<open>y.ValueStruct{}\<close>: both slices nil.\<close>

definition zeroValueStruct :: ValueStruct where
  "zeroValueStruct = \<lparr>Meta = 0, UserMeta = None, Value = None, Version = 0\<rparr>"

text \<open>\<open>memtable.Entry\<close>: fields \<open>Key\<close> and \<open>Value\<close>.\<close>

record Entry =
  Key :: bytes
  EntryValue :: ValueStruct

definition zeroEntry :: Entry where
  "zeroEntry = \<lparr>Key = [], EntryValue = zeroValueStruct\<rparr>"

section \<open>Write batch (engine.go, \<open>WriteBatch\<close>)\<close>

text \<open>\<open>CFConfig\<close> is declared outside the given sources; the batch reads its \<open>Managed\<close> flag.\<close>

record CFConfig =
  Managed :: bool

text \<open>
  The batch holds pointers: \<open>entries[cf]\<close> is a slice of \<open>*memtable.Entry\<close>, each pointing
  into a backing array of \<open>entryArena\<close>. Pointers are addresses into \<open>cells\<close>, the store of
  all arena cells ever allocated for this batch (an array that \<open>append\<close> has abandoned stays
  alive while an entry points into it). \<open>entryArena\<close> is the list of the addresses of the
  current slice; the code keeps its length equal to its capacity.
\<close>

type_synonym addr = nat

record 's WriteBatch =
  wb_shard :: 's
  cfConfs :: "CFConfig list"
  entries :: "addr list list"
  estimatedSize :: int64
  properties :: "string \<rightharpoonup> bytes"
  entryArena :: "addr list"
  entryArenaIdx :: nat
  cells :: "Entry list"

text \<open>
  What the batch code takes from outside the given sources: \<open>y.ValueStruct.EncodedSize\<close>,
  the constants \<open>memtable.EstimateNodeSize\<close> and \<open>table.BitDelete\<close>, and the spare capacity
  the Go runtime adds when \<open>append\<close> grows a full slice of the given length.
\<close>

record batchEnv =
  EncodedSize :: "ValueStruct \<Rightarrow> uint32"
  EstimateNodeSize :: int
  BitDelete :: byte
  spareCap :: "nat \<Rightarrow> nat"

text \<open>\<open>NewWriteBatch\<close>, from the engine's \<open>opt.CFs\<close> and \<open>numCFs\<close>.\<close>

definition NewWriteBatch :: "CFConfig list \<Rightarrow> nat \<Rightarrow> 's \<Rightarrow> 's WriteBatch" where
  "NewWriteBatch optCFs numCFs sh =
     \<lparr>wb_shard = sh, cfConfs = optCFs, entries = replicate numCFs [],
      estimatedSize = 0, properties = Map.empty,
      entryArena = [], entryArenaIdx = 0, cells = []\<rparr>"

text \<open>
  \<open>append(wb.entryArena, memtable.Entry{})\<close> on a full slice followed by the reslice to the
  capacity: a new zeroed array, the old cells copied to its front.
\<close>

definition growArena :: "batchEnv \<Rightarrow> 's WriteBatch \<Rightarrow> 's WriteBatch" where
  "growArena env wb =
     (let n = length (entryArena wb);
          newCap = Suc n + spareCap env n;
          base = length (cells wb)
      in wb\<lparr>entryArena := [base ..< base + newCap],
            cells := cells wb @ map (\<lambda>a. cells wb ! a) (entryArena wb)
                       @ replicate (newCap - n) zeroEntry\<rparr>)"

definition allocEntry ::
  "batchEnv \<Rightarrow> 's WriteBatch \<Rightarrow> bytes \<Rightarrow> ValueStruct \<Rightarrow> (addr \<times> 's WriteBatch) outcome" where
  "allocEntry env wb key val =
     (let wb1 = (if length (entryArena wb) \<le> entryArenaIdx wb then growArena env wb else wb)
      in if entryArenaIdx wb1 < length (entryArena wb1)
         then (let e = entryArena wb1 ! entryArenaIdx wb1
               in Done (e, wb1\<lparr>cells := (cells wb1)[e := \<lparr>Key = key, EntryValue = val\<rparr>],
                              entryArenaIdx := entryArenaIdx wb1 + 1\<rparr>))
         else Panic)"

text \<open>The tail common to \<open>Put\<close> and \<open>Delete\<close>: append the new entry to \<open>entries[cf]\<close>, add to the size.\<close>

definition appendEntry ::
  "batchEnv \<Rightarrow> 's WriteBatch \<Rightarrow> nat \<Rightarrow> bytes \<Rightarrow> ValueStruct \<Rightarrow> int \<Rightarrow>
     (error option \<times> 's WriteBatch) outcome" where
  "appendEntry env wb cf key val sz =
     (if cf < length (entries wb)
      then (case allocEntry env wb key val of
              Panic \<Rightarrow> Panic
            | Done (e, wb1) \<Rightarrow>
                Done (None, wb1\<lparr>entries := (entries wb1)[cf := entries wb1 ! cf @ [e] ],
                                estimatedSize := estimatedSize wb1 + word_of_int sz\<rparr>))
      else Panic)"

definition Put ::
  "batchEnv \<Rightarrow> 's WriteBatch \<Rightarrow> int \<Rightarrow> bytes \<Rightarrow> ValueStruct \<Rightarrow>
     (error option \<times> 's WriteBatch) outcome" where
  "Put env wb cf key val =
     (if 0 \<le> cf \<and> nat cf < length (cfConfs wb)
      then if Managed (cfConfs wb ! nat cf)
           then if Version val = 0
                then Done (Some (Errorf ''version is zero for managed CF''), wb)
                else appendEntry env wb (nat cf) key val
                       (int (length key) + uint (EncodedSize env val) + EstimateNodeSize env)
           else if Version val \<noteq> 0
                then Done (Some (Errorf ''version is not zero for non-managed CF''), wb)
                else appendEntry env wb (nat cf) key val
                       (int (length key) + uint (EncodedSize env val) + EstimateNodeSize env)
      else Panic)"

text \<open>
  \<open>Delete\<close> takes the column family as a \<open>byte\<close> and records a tombstone, the literal
  \<open>y.ValueStruct{Meta: table.BitDelete, Version: version}\<close> with both slices nil.
\<close>

definition Delete ::
  "batchEnv \<Rightarrow> 's WriteBatch \<Rightarrow> byte \<Rightarrow> bytes \<Rightarrow> uint64 \<Rightarrow>
     (error option \<times> 's WriteBatch) outcome" where
  "Delete env wb cf key version =
     (if unat cf < length (cfConfs wb)
      then if Managed (cfConfs wb ! unat cf)
           then if version = 0
                then Done (Some (Errorf ''version is zero for managed CF''), wb)
                else appendEntry env wb (unat cf) key
                       \<lparr>Meta = BitDelete env, UserMeta = None, Value = None, Version = version\<rparr>
                       (int (length key) + EstimateNodeSize env)
           else if version \<noteq> 0
                then Done (Some (Errorf ''version is not zero for non-managed CF''), wb)
                else appendEntry env wb (unat cf) key
                       \<lparr>Meta = BitDelete env, UserMeta = None, Value = None, Version = version\<rparr>
                       (int (length key) + EstimateNodeSize env)
      else Panic)"

definition SetProperty :: "'s WriteBatch \<Rightarrow> string \<Rightarrow> bytes \<Rightarrow> 's WriteBatch" where
  "SetProperty wb key val = wb\<lparr>properties := (properties wb)(key \<mapsto> val)\<rparr>"

definition EstimatedSize :: "'s WriteBatch \<Rightarrow> int64" where
  "EstimatedSize wb = estimatedSize wb"

fun sumLengths :: "int \<Rightarrow> addr list list \<Rightarrow> int" where
  "sumLengths n [] = n"
| "sumLengths n (es # rest) = sumLengths (n + int (length es)) rest"

definition NumEntries :: "'s WriteBatch \<Rightarrow> int" where
  "NumEntries wb = sumLengths 0 (entries wb)"

definition Reset :: "'s WriteBatch \<Rightarrow> 's WriteBatch" where
  "Reset wb = wb\<lparr>entries := map (\<lambda>es. take 0 es) (entries wb),
                 estimatedSize := 0,
                 properties := Map.empty,
                 entryArenaIdx := 0\<rparr>"

text \<open>
  \<open>Iterate\<close> calls the visitor on the entries of one column family until it answers
  \<open>false\<close>. The visitor is a closure; \<open>'v\<close> is the state it carries.
\<close>

fun visitEntries :: "(Entry \<Rightarrow> 'v \<Rightarrow> bool \<times> 'v) \<Rightarrow> Entry list \<Rightarrow> 'v \<Rightarrow> 'v" where
  "visitEntries fn [] st = st"
| "visitEntries fn (e # es) st =
     (case fn e st of (continue, st') \<Rightarrow> if continue then visitEntries fn es st' else st')"

definition Iterate ::
  "'s WriteBatch \<Rightarrow> int \<Rightarrow> (Entry \<Rightarrow> 'v \<Rightarrow> bool \<times> 'v) \<Rightarrow> 'v \<Rightarrow> 'v outcome" where
  "Iterate wb cf fn st =
     (if 0 \<le> cf \<and> nat cf < length (entries wb)
      then Done (visitEntries fn (map (\<lambda>a. cells wb ! a) (entries wb ! nat cf)) st)
      else Panic)"

text \<open>The entries of each column family as a reader of the batch sees them, pointers followed.\<close>

definition batchEntries :: "'s WriteBatch \<Rightarrow> Entry list list" where
  "batchEntries wb = map (map (\<lambda>a. cells wb ! a)) (entries wb)"

text \<open>The rule of \<open>Put\<close> and \<open>Delete\<close> in the words of the specification.\<close>

definition versionMismatch :: "CFConfig \<Rightarrow> uint64 \<Rightarrow> bool" where
  "versionMismatch c v = ((Managed c \<and> v = 0) \<or> (\<not> Managed c \<and> v \<noteq> 0))"

text \<open>
  What holds of every batch made by \<open>NewWriteBatch\<close> on an opened engine and used through
  its methods: one entry list per column family, arena cells inside the store and pairwise
  distinct, and no entry pointing at an arena cell that is still free.
\<close>

definition wb_inv :: "'s WriteBatch \<Rightarrow> bool" where
  "wb_inv wb =
     (length (entries wb) = length (cfConfs wb) \<and>
      entryArenaIdx wb \<le> length (entryArena wb) \<and>
      distinct (entryArena wb) \<and>
      list_all (\<lambda>a. a < length (cells wb)) (entryArena wb) \<and>
      list_all (list_all (\<lambda>a. a < length (cells wb) \<and>
                              a \<notin> set (drop (entryArenaIdx wb) (entryArena wb)))) (entries wb))"

text \<open>What \<open>allocEntry\<close> leaves behind: the batch \<open>wb1\<close> with the cell \<open>e\<close> written, the
  entry lists untouched and every cell they point to unchanged.\<close>

definition allocPost :: "'s WriteBatch \<Rightarrow> bytes \<Rightarrow> ValueStruct \<Rightarrow> addr \<Rightarrow> 's WriteBatch \<Rightarrow> bool" where
  "allocPost wb key val e wb1 =
     (entries wb1 = entries wb \<and> cfConfs wb1 = cfConfs wb \<and>
      estimatedSize wb1 = estimatedSize wb \<and> properties wb1 = properties wb \<and>
      wb_shard wb1 = wb_shard wb \<and>
      entryArenaIdx wb1 \<le> length (entryArena wb1) \<and> distinct (entryArena wb1) \<and>
      (\<forall>a \<in> set (entryArena wb1). a < length (cells wb1)) \<and>
      e < length (cells wb1) \<and>
      e \<notin> set (drop (entryArenaIdx wb1) (entryArena wb1)) \<and>
      cells wb1 ! e = \<lparr>Key = key, EntryValue = val\<rparr> \<and>
      (\<forall>es \<in> set (entries wb). \<forall>a \<in> set es.
         a < length (cells wb1) \<and> a \<notin> set (drop (entryArenaIdx wb1) (entryArena wb1)) \<and>
         cells wb1 ! a = cells wb ! a))"

text \<open>What a successful \<open>Put\<close> or \<open>Delete\<close> leaves behind: the entry appended to its column
  family, the size advanced, everything else as before.\<close>

definition appended ::
  "'s WriteBatch \<Rightarrow> nat \<Rightarrow> bytes \<Rightarrow> ValueStruct \<Rightarrow> int \<Rightarrow> 's WriteBatch \<Rightarrow> bool" where
  "appended wb cf key val sz wb' =
     (wb_inv wb' \<and>
      batchEntries wb' = (batchEntries wb)[cf := batchEntries wb ! cf @ [\<lparr>Key = key, EntryValue = val\<rparr>] ] \<and>
      cfConfs wb' = cfConfs wb \<and>
      estimatedSize wb' = estimatedSize wb + word_of_int sz \<and>
      properties wb' = properties wb \<and>
      wb_shard wb' = wb_shard wb)"

section \<open>Memtable (package memtable)\<close>

text \<open>
  A table is one skiplist per column family and a commit version. The skiplist type is
  declared outside the given sources and stays abstract (\<open>'sk\<close>), as does the read hint
  (\<open>'h\<close>), the L0 table (\<open>'l0\<close>) and the table of a level (\<open>'t\<close>).
\<close>

record 'sk Table =
  skls :: "'sk list"
  tbl_version :: uint64
  flushing :: uint32

section \<open>Shard and engine state\<close>

record 't levelHandler =
  tables :: "'t list"
  level :: int
  totalSize :: int64

record 't shardCF =
  levels :: "'t levelHandler list"

text \<open>
  Modelled from the spec: the \<open>Shard\<close> struct is declared outside the given sources.
  Section 3 of the specification lists its parts; these are the ones engine.go reads:
  the identity \<open>(id, version)\<close>, the memtable slice (index 0 the active table, the
  immutable ones behind it), the L0 slice, the level handlers of each column family and the
  \<open>initialFlushed\<close> flag.
\<close>

record ('sk, 'l0, 't) Shard =
  shardID :: uint64
  shardVer :: uint64
  memTbls :: "'sk Table list"
  l0Tbls :: "'l0 list"
  cfs :: "'t shardCF list"
  initialFlushed :: bool

text \<open>
  What engine.go calls outside the given sources, taken as parameters:
  \<open>y.ValueStruct.Valid\<close>, \<open>table.IsDeleted\<close>, \<open>farm.Fingerprint64\<close>, the skiplist's \<open>Get\<close>
  and \<open>Empty\<close> and the skiplist that \<open>NewCFTable\<close> builds, the table's \<open>GetWithHint\<close>
  (which also updates the hint), the \<open>Get\<close> of an L0 table, the \<open>get\<close> of a level
  handler, and the shard's \<open>getSplittingIndex\<close> and \<open>allocCommitTS\<close> (which also
  advances the shard's allocator).
\<close>

record ('sk, 'h, 'l0, 't) deps =
  Valid :: "ValueStruct \<Rightarrow> bool"
  IsDeleted :: "byte \<Rightarrow> bool"
  Fingerprint64 :: "bytes \<Rightarrow> uint64"
  sklGet :: "'sk \<Rightarrow> bytes \<Rightarrow> uint64 \<Rightarrow> ValueStruct"
  sklEmpty :: "'sk \<Rightarrow> bool"
  newSkiplist :: "'sk"
  GetWithHint :: "'sk Table \<Rightarrow> int \<Rightarrow> bytes \<Rightarrow> uint64 \<Rightarrow> 'h \<Rightarrow> ValueStruct \<times> 'h"
  l0Get :: "'l0 \<Rightarrow> int \<Rightarrow> bytes \<Rightarrow> uint64 \<Rightarrow> uint64 \<Rightarrow> ValueStruct"
  levelGet :: "'t levelHandler \<Rightarrow> bytes \<Rightarrow> uint64 \<Rightarrow> uint64 \<Rightarrow> ValueStruct"
  getSplittingIndex :: "('sk, 'l0, 't) Shard \<Rightarrow> bytes \<Rightarrow> int"
  allocCommitTS :: "('sk, 'l0, 't) Shard \<Rightarrow> uint64 \<times> ('sk, 'l0, 't) Shard"

text \<open>\<open>NewCFTable\<close>: \<open>make\<close> panics on a negative length.\<close>

definition NewCFTable :: "('sk, 'h, 'l0, 't) deps \<Rightarrow> int \<Rightarrow> 'sk Table outcome" where
  "NewCFTable d n =
     (if n < 0 then Panic
      else Done \<lparr>skls = replicate (nat n) (newSkiplist d), tbl_version = 0, flushing = 0\<rparr>)"

text \<open>\<open>Table.Get\<close>: \<open>cft.skls[cf].Get(key, version)\<close>.\<close>

definition Table_Get ::
  "('sk, 'h, 'l0, 't) deps \<Rightarrow> 'sk Table \<Rightarrow> int \<Rightarrow> bytes \<Rightarrow> uint64 \<Rightarrow> ValueStruct outcome" where
  "Table_Get d cft cf key ver =
     (if 0 \<le> cf \<and> nat cf < length (skls cft)
      then Done (sklGet d (skls cft ! nat cf) key ver) else Panic)"

fun allEmpty :: "('sk, 'h, 'l0, 't) deps \<Rightarrow> 'sk list \<Rightarrow> bool" where
  "allEmpty d [] = True"
| "allEmpty d (skl # rest) = (if \<not> sklEmpty d skl then False else allEmpty d rest)"

definition Table_Empty :: "('sk, 'h, 'l0, 't) deps \<Rightarrow> 'sk Table \<Rightarrow> bool" where
  "Table_Empty d cft = allEmpty d (skls cft)"

definition Table_SetVersion :: "'sk Table \<Rightarrow> uint64 \<Rightarrow> 'sk Table" where
  "Table_SetVersion cft ver = cft\<lparr>tbl_version := ver\<rparr>"

definition Table_GetVersion :: "'sk Table \<Rightarrow> uint64" where
  "Table_GetVersion cft = tbl_version cft"

section \<open>Snapshot reads (engine.go, \<open>SnapAccess\<close>)\<close>

text \<open>
  \<open>splitting\<close> is \<open>None\<close> for the nil slice of a shard that is not splitting. The epoch
  guard of the snapshot plays no part in a lookup and is left out.
\<close>

record ('sk, 'h, 'l0, 't) SnapAccess =
  sa_shard :: "('sk, 'l0, 't) Shard"
  sa_cfs :: "CFConfig list"
  hints :: "'h list"
  memTables :: "'sk Table list"
  splitting :: "'sk Table list option"
  l0Tables :: "'l0 list"
  managedReadTS :: uint64

record Item =
  item_key :: bytes
  item_ver :: uint64
  item_meta :: byte
  item_userMeta :: "bytes option"
  item_val :: "bytes option"

text \<open>The probe of the splitting memtable: \<open>None\<close> when the lookup goes on.\<close>

definition probeSplitting ::
  "('sk, 'h, 'l0, 't) deps \<Rightarrow> ('sk, 'h, 'l0, 't) SnapAccess \<Rightarrow> int \<Rightarrow> bytes \<Rightarrow> uint64 \<Rightarrow>
     ValueStruct option outcome" where
  "probeSplitting d s cf key ver =
     (case splitting s of
        None \<Rightarrow> Done None
      | Some tbls \<Rightarrow>
          (let idx = getSplittingIndex d (sa_shard s) key
           in if 0 \<le> idx \<and> nat idx < length tbls
              then (case Table_Get d (tbls ! nat idx) cf key ver of
                      Panic \<Rightarrow> Panic
                    | Done v \<Rightarrow> Done (if Valid d v then Some v else None))
              else Panic))"

text \<open>The loop over \<open>s.memTables.tables\<close>, \<open>i\<close> the index of the head of the list.\<close>

fun probeMemTables ::
  "('sk, 'h, 'l0, 't) deps \<Rightarrow> nat \<Rightarrow> 'sk Table list \<Rightarrow> int \<Rightarrow> bytes \<Rightarrow> uint64 \<Rightarrow> 'h list \<Rightarrow>
     (ValueStruct option \<times> 'h list) outcome" where
  "probeMemTables d i [] cf key ver hs = Done (None, hs)"
| "probeMemTables d i (memTbl # rest) cf key ver hs =
     (if i = 0
      then (if 0 \<le> cf \<and> nat cf < length hs
            then (case GetWithHint d memTbl cf key ver (hs ! nat cf) of
                    (v, h) \<Rightarrow>
                      if Valid d v then Done (Some v, hs[nat cf := h])
                      else probeMemTables d (i + 1) rest cf key ver (hs[nat cf := h]))
            else Panic)
      else (case Table_Get d memTbl cf key ver of
              Panic \<Rightarrow> Panic
            | Done v \<Rightarrow>
                if Valid d v then Done (Some v, hs)
                else probeMemTables d (i + 1) rest cf key ver hs))"

fun probeL0 ::
  "('sk, 'h, 'l0, 't) deps \<Rightarrow> 'l0 list \<Rightarrow> int \<Rightarrow> bytes \<Rightarrow> uint64 \<Rightarrow> uint64 \<Rightarrow>
     ValueStruct option" where
  "probeL0 d [] cf key ver keyHash = None"
| "probeL0 d (tbl # rest) cf key ver keyHash =
     (let v = l0Get d tbl cf key ver keyHash
      in if Valid d v then Some v else probeL0 d rest cf key ver keyHash)"

text \<open>
  The loop over the levels \<open>1..len(scf.levels)\<close>. \<open>getLevelHandler\<close> is outside the given
  sources; \<open>DebugHandler\<close> in engine.go reads position \<open>l\<close> of \<open>levels\<close> as
  \<open>getLevelHandler(l + 1)\<close>, so \<open>getLevelHandler(i)\<close> is the handler at position \<open>i - 1\<close>
  and the loop walks the list.
\<close>

fun probeLevels ::
  "('sk, 'h, 'l0, 't) deps \<Rightarrow> 't levelHandler list \<Rightarrow> bytes \<Rightarrow> uint64 \<Rightarrow> uint64 \<Rightarrow>
     ValueStruct option" where
  "probeLevels d [] key ver keyHash = None"
| "probeLevels d (lv # rest) key ver keyHash =
     (if length (tables lv) = 0 then probeLevels d rest key ver keyHash
      else (let v = levelGet d lv key ver keyHash
            in if Valid d v then Some v else probeLevels d rest key ver keyHash))"

text \<open>\<open>getValue\<close> returns the record found and the hints as the lookup leaves them.\<close>

definition getValue ::
  "('sk, 'h, 'l0, 't) deps \<Rightarrow> ('sk, 'h, 'l0, 't) SnapAccess \<Rightarrow> int \<Rightarrow> bytes \<Rightarrow> uint64 \<Rightarrow>
     (ValueStruct \<times> 'h list) outcome" where
  "getValue d s cf key ver =
     (let keyHash = Fingerprint64 d key
      in case probeSplitting d s cf key ver of
           Panic \<Rightarrow> Panic
         | Done (Some v) \<Rightarrow> Done (v, hints s)
         | Done None \<Rightarrow>
             (case probeMemTables d 0 (memTables s) cf key ver (hints s) of
                Panic \<Rightarrow> Panic
              | Done (Some v, hs) \<Rightarrow> Done (v, hs)
              | Done (None, hs) \<Rightarrow>
                  (case probeL0 d (l0Tables s) cf key ver keyHash of
                     Some v \<Rightarrow> Done (v, hs)
                   | None \<Rightarrow>
                       if 0 \<le> cf \<and> nat cf < length (cfs (sa_shard s))
                       then (case probeLevels d (levels (cfs (sa_shard s) ! nat cf))
                                     key ver keyHash of
                               Some v \<Rightarrow> Done (v, hs)
                             | None \<Rightarrow> Done (zeroValueStruct, hs))
                       else Panic)))"

text \<open>\<open>math.MaxUint64\<close>.\<close>

definition MaxUint64 :: uint64 where
  "MaxUint64 = 18446744073709551615"

definition Get ::
  "('sk, 'h, 'l0, 't) deps \<Rightarrow> ('sk, 'h, 'l0, 't) SnapAccess \<Rightarrow> int \<Rightarrow> bytes \<Rightarrow> uint64 \<Rightarrow>
     ((error + Item) \<times> ('sk, 'h, 'l0, 't) SnapAccess) outcome" where
  "Get d s cf key ver0 =
     (let ver = (if ver0 = 0 then MaxUint64 else ver0)
      in case getValue d s cf key ver of
           Panic \<Rightarrow> Panic
         | Done (vs, hs) \<Rightarrow>
             if \<not> Valid d vs then Done (Inl ErrKeyNotFound, s\<lparr>hints := hs\<rparr>)
             else if IsDeleted d (Meta vs) then Done (Inl ErrKeyNotFound, s\<lparr>hints := hs\<rparr>)
             else Done (Inr \<lparr>item_key = key, item_ver = Version vs, item_meta = Meta vs,
                              item_userMeta = UserMeta vs, item_val = Value vs\<rparr>,
                        s\<lparr>hints := hs\<rparr>))"

text \<open>The loop of \<open>MultiGet\<close>; a missing key leaves a nil item (\<open>None\<close>).\<close>

fun multiGetLoop ::
  "('sk, 'h, 'l0, 't) deps \<Rightarrow> ('sk, 'h, 'l0, 't) SnapAccess \<Rightarrow> int \<Rightarrow> bytes list \<Rightarrow> uint64 \<Rightarrow>
     Item option list \<Rightarrow>
     ((error + Item option list) \<times> ('sk, 'h, 'l0, 't) SnapAccess) outcome" where
  "multiGetLoop d s cf [] ver items = Done (Inr items, s)"
| "multiGetLoop d s cf (key # rest) ver items =
     (case Get d s cf key ver of
        Panic \<Rightarrow> Panic
      | Done (Inl err, s') \<Rightarrow>
          if err \<noteq> ErrKeyNotFound then Done (Inl err, s')
          else multiGetLoop d s' cf rest ver (items @ [None])
      | Done (Inr item, s') \<Rightarrow> multiGetLoop d s' cf rest ver (items @ [Some item]))"

definition MultiGet ::
  "('sk, 'h, 'l0, 't) deps \<Rightarrow> ('sk, 'h, 'l0, 't) SnapAccess \<Rightarrow> int \<Rightarrow> bytes list \<Rightarrow> uint64 \<Rightarrow>
     ((error + Item option list) \<times> ('sk, 'h, 'l0, 't) SnapAccess) outcome" where
  "MultiGet d s cf keys ver0 =
     (let ver = (if ver0 = 0 then MaxUint64 else ver0)
      in multiGetLoop d s cf keys ver [])"

text \<open>
  The order of the probes in the words of the specification: the records that the sources
  return, the splitting memtable first, then the memtables (the first one through the hint of
  the column family), then the L0 tables with the fingerprint of the key, then one lookup in
  each level that has tables. The lookup answers the first valid one.
\<close>

definition probeOrder ::
  "('sk, 'h, 'l0, 't) deps \<Rightarrow> ('sk, 'h, 'l0, 't) SnapAccess \<Rightarrow> int \<Rightarrow> bytes \<Rightarrow> uint64 \<Rightarrow>
     ValueStruct list" where
  "probeOrder d s cf key ver =
     (case splitting s of
        None \<Rightarrow> []
      | Some tbls \<Rightarrow>
          [sklGet d (skls (tbls ! nat (getSplittingIndex d (sa_shard s) key)) ! nat cf) key ver])
     @ (case memTables s of
          [] \<Rightarrow> []
        | memTbl # rest \<Rightarrow>
            fst (GetWithHint d memTbl cf key ver (hints s ! nat cf))
              # map (\<lambda>t. sklGet d (skls t ! nat cf) key ver) rest)
     @ map (\<lambda>tbl. l0Get d tbl cf key ver (Fingerprint64 d key)) (l0Tables s)
     @ map (\<lambda>lv. levelGet d lv key ver (Fingerprint64 d key))
         (filter (\<lambda>lv. tables lv \<noteq> []) (levels (cfs (sa_shard s) ! nat cf)))"

definition firstValid :: "('sk, 'h, 'l0, 't) deps \<Rightarrow> ValueStruct list \<Rightarrow> ValueStruct" where
  "firstValid d vs = (case find (Valid d) vs of Some v \<Rightarrow> v | None \<Rightarrow> zeroValueStruct)"

text \<open>
  A snapshot on which a lookup in column family \<open>cf\<close> indexes nothing out of range: the
  column family exists in the hints, in the shard and in every memtable, and the splitting
  index of the key names a splitting memtable.
\<close>

definition snapOK ::
  "('sk, 'h, 'l0, 't) deps \<Rightarrow> ('sk, 'h, 'l0, 't) SnapAccess \<Rightarrow> int \<Rightarrow> bytes \<Rightarrow> bool" where
  "snapOK d s cf key =
     (0 \<le> cf \<and> nat cf < length (hints s) \<and> nat cf < length (cfs (sa_shard s)) \<and>
      list_all (\<lambda>t. nat cf < length (skls t)) (memTables s) \<and>
      (case splitting s of
         None \<Rightarrow> True
       | Some tbls \<Rightarrow>
           0 \<le> getSplittingIndex d (sa_shard s) key \<and>
           nat (getSplittingIndex d (sa_shard s) key) < length tbls \<and>
           nat cf < length (skls (tbls ! nat (getSplittingIndex d (sa_shard s) key)))))"

text \<open>The hints after a lookup: only the first memtable is read through the hint of the
  column family, and only when the splitting memtable has not answered.\<close>

definition hintsAfter ::
  "('sk, 'h, 'l0, 't) deps \<Rightarrow> ('sk, 'h, 'l0, 't) SnapAccess \<Rightarrow> int \<Rightarrow> bytes \<Rightarrow> uint64 \<Rightarrow> 'h list" where
  "hintsAfter d s cf key ver =
     (case probeSplitting d s cf key ver of
        Done (Some v) \<Rightarrow> hints s
      | _ \<Rightarrow> (case memTables s of
                [] \<Rightarrow> hints s
              | memTbl # rest \<Rightarrow>
                  (hints s)[nat cf := snd (GetWithHint d memTbl cf key ver (hints s ! nat cf))]))"

section \<open>Trigger flush (engine.go, \<open>Engine.TriggerFlush\<close>)\<close>

text \<open>
  A flush task names its shard (the pointer is the shard's identity) and carries the
  memtable. \<open>flushCh\<close> is the sequence of tasks sent on the channel and not yet received; a
  send appends. The engine is open: \<open>Close\<close> has not closed the channel.
\<close>

record 'sk flushTask =
  task_shard :: "uint64 \<times> uint64"
  task_tbl :: "'sk Table"

record 'sk Engine =
  numCFs :: int
  flushCh :: "'sk flushTask list"

definition taskFor :: "('sk, 'l0, 't) Shard \<Rightarrow> 'sk Table \<Rightarrow> 'sk flushTask" where
  "taskFor sh memTbl = \<lparr>task_shard = (shardID sh, shardVer sh), task_tbl = memTbl\<rparr>"

text \<open>
  The loop \<open>for i := len(mems.tables) - skipCnt - 1; i > 0; i--\<close>. Go's \<open>int\<close> has 64 bits;
  the start index does not wrap for a \<open>skipCnt\<close> that is not negative.
\<close>

function flushLoop ::
  "('sk, 'l0, 't) Shard \<Rightarrow> 'sk Table list \<Rightarrow> int \<Rightarrow> 'sk flushTask list \<Rightarrow>
     'sk flushTask list outcome" where
  "flushLoop sh mems i ch =
     (if i > 0
      then (if nat i < length mems
            then flushLoop sh mems (i - 1) (ch @ [taskFor sh (mems ! nat i)])
            else Panic)
      else Done ch)"
  by pat_completeness auto
termination
  by (relation "measure (\<lambda>(sh, mems, i, ch). nat i)") auto

declare flushLoop.simps [simp del]

definition TriggerFlush ::
  "('sk, 'h, 'l0, 't) deps \<Rightarrow> 'sk Engine \<Rightarrow> ('sk, 'l0, 't) Shard \<Rightarrow> int \<Rightarrow>
     ('sk Engine \<times> ('sk, 'l0, 't) Shard) outcome" where
  "TriggerFlush d en sh skipCnt =
     (let mems = memTbls sh
      in case flushLoop sh mems (int (length mems) - skipCnt - 1) (flushCh en) of
           Panic \<Rightarrow> Panic
         | Done ch \<Rightarrow>
             if (case mems of [m] \<Rightarrow> Table_Empty d m | _ \<Rightarrow> False)
             then if \<not> initialFlushed sh
                  then (case allocCommitTS d sh of
                          (commitTS, sh') \<Rightarrow>
                            (case NewCFTable d (numCFs en) of
                               Panic \<Rightarrow> Panic
                             | Done memTbl \<Rightarrow>
                                 Done (en\<lparr>flushCh := ch @ [taskFor sh (Table_SetVersion memTbl commitTS)]\<rparr>,
                                       sh')))
                  else Done (en\<lparr>flushCh := ch\<rparr>, sh)
             else Done (en\<lparr>flushCh := ch\<rparr>, sh))"

text \<open>
  The flush order in the words of the specification: the immutable memtables (indices
  \<open>1..k\<close>, a higher index sealed earlier) without the \<open>skipCnt\<close> most recently sealed ones,
  oldest first.
\<close>

definition specFlushOrder :: "'sk Table list \<Rightarrow> int \<Rightarrow> 'sk Table list" where
  "specFlushOrder mems skipCnt = rev (drop (nat skipCnt) (tl mems))"

text \<open>What the loop enqueues: the immutable memtables without the \<open>skipCnt\<close> at the highest
  indices (the ones sealed earliest), by falling index.\<close>

definition codeFlushOrder :: "'sk Table list \<Rightarrow> int \<Rightarrow> 'sk Table list" where
  "codeFlushOrder mems skipCnt = rev (take (length (tl mems) - nat skipCnt) (tl mems))"

text \<open>The placeholder: the empty table of \<open>NewCFTable\<close> with the new commit version.\<close>

definition placeholder ::
  "('sk, 'h, 'l0, 't) deps \<Rightarrow> 'sk Engine \<Rightarrow> ('sk, 'l0, 't) Shard \<Rightarrow> 'sk flushTask" where
  "placeholder d en sh =
     taskFor sh \<lparr>skls = replicate (nat (numCFs en)) (newSkiplist d),
                 tbl_version = fst (allocCommitTS d sh), flushing = 0\<rparr>"

section \<open>Id allocators\<close>

text \<open>\<open>localIDAllocator\<close> of engine.go; \<open>atomic.AddUint64\<close> returns the new value.\<close>

record localIDAllocator =
  latest :: uint64

definition AllocID :: "localIDAllocator \<Rightarrow> int \<Rightarrow> (uint64 \<times> error option) \<times> localIDAllocator" where
  "AllocID l count =
     (let new = latest l + word_of_int count in ((new, None), l\<lparr>latest := new\<rparr>))"

text \<open>\<open>MockRegionManager\<close>: the allocator reads and writes its \<open>id\<close> field only.\<close>

record MockRegionManager =
  rm_id :: uint64

definition rm_AllocID :: "MockRegionManager \<Rightarrow> uint64 \<times> MockRegionManager" where
  "rm_AllocID rm = (let new = rm_id rm + 1 in (new, rm\<lparr>rm_id := new\<rparr>))"

text \<open>
  \<open>AllocIDs\<close>: after the counter has moved, \<open>make([]uint64, n)\<close> panics on a negative
  length and on a length the runtime cannot allocate (beyond the slice limit of the platform,
  or beyond the memory at hand below it). \<open>makeLimit\<close> is the largest length for which it
  returns.
\<close>

definition AllocIDs ::
  "int \<Rightarrow> MockRegionManager \<Rightarrow> int \<Rightarrow> (uint64 list \<times> MockRegionManager) outcome" where
  "AllocIDs makeLimit rm n =
     (let maxID = rm_id rm + word_of_int n
      in if n < 0 \<or> makeLimit < n then Panic
         else (let base = maxID - word_of_int (n - 1)
               in Done (map (\<lambda>i. base + word_of_nat i) [0 ..< nat n], rm\<lparr>rm_id := maxID\<rparr>)))"

text \<open>A sequence of calls on one allocator: the ids returned, call by call.\<close>

fun allocSeq :: "localIDAllocator \<Rightarrow> int list \<Rightarrow> uint64 list" where
  "allocSeq l [] = []"
| "allocSeq l (c # cs) = (case AllocID l c of ((r, err), l') \<Rightarrow> r # allocSeq l' cs)"

fun allocIDsSeq :: "int \<Rightarrow> MockRegionManager \<Rightarrow> int list \<Rightarrow> uint64 list list outcome" where
  "allocIDsSeq makeLimit rm [] = Done []"
| "allocIDsSeq makeLimit rm (n # ns) =
     (case AllocIDs makeLimit rm n of
        Panic \<Rightarrow> Panic
      | Done (ids, rm') \<Rightarrow>
          (case allocIDsSeq makeLimit rm' ns of Panic \<Rightarrow> Panic | Done runs \<Rightarrow> Done (ids # runs)))"

text \<open>
  The run of \<open>count\<close> ids that a call of \<open>AllocID\<close> returning \<open>r\<close> stands for: the ids up
  to and including \<open>r\<close>, as \<open>AllocIDs\<close> lists them.
\<close>

definition runOf :: "uint64 \<Rightarrow> int \<Rightarrow> uint64 list" where
  "runOf r count = map (\<lambda>i. r - word_of_int (count - 1) + word_of_nat i) [0 ..< nat count]"

fun allocRuns :: "localIDAllocator \<Rightarrow> int list \<Rightarrow> uint64 list list" where
  "allocRuns l [] = []"
| "allocRuns l (c # cs) = (case AllocID l c of ((r, err), l') \<Rightarrow> runOf r c # allocRuns l' cs)"

section \<open>Configuration durations (\<open>ParseDuration\<close>)\<close>

text \<open>
  \<open>time.ParseDuration\<close> of the Go library is a parameter: it answers an error or a
  \<open>time.Duration\<close>, a signed 64-bit count of nanoseconds. \<open>log.S().Fatalf\<close> ends the process.
\<close>

datatype 'a fatal = Fatal string | Returned 'a

definition ParseDuration :: "(string \<Rightarrow> error + int64) \<Rightarrow> string \<Rightarrow> int64 fatal" where
  "ParseDuration timeParseDuration durationStr =
     (let r = (case timeParseDuration durationStr of
                 Inl err \<Rightarrow> timeParseDuration (durationStr @ ''s'')
               | Inr dur \<Rightarrow> Inr dur)
      in case r of
           Inl err \<Rightarrow> Fatal (''invalid duration='' @ durationStr)
         | Inr dur \<Rightarrow>
             if dur <s 0 then Fatal (''invalid duration='' @ durationStr) else Returned dur)"

section \<open>Instances for the examples\<close>

text \<open>
  The examples below run the definitions on a small instance of the parameters: a skiplist,
  an L0 table and a level table are each the list of their records, newest version first; a
  record is valid when its meta byte is not zero or its value is not nil, and deleted when the
  lowest bit of the meta byte is set; a hint counts its uses.
\<close>

type_synonym sampleTable = "(bytes \<times> ValueStruct) list"

fun sampleLookup :: "sampleTable \<Rightarrow> bytes \<Rightarrow> uint64 \<Rightarrow> ValueStruct" where
  "sampleLookup [] key ver = zeroValueStruct"
| "sampleLookup ((k, v) # rest) key ver =
     (if k = key \<and> Version v \<le> ver then v else sampleLookup rest key ver)"

definition sampleDeps :: "(sampleTable, nat, sampleTable, sampleTable) deps" where
  "sampleDeps =
     \<lparr>Valid = (\<lambda>v. Meta v \<noteq> 0 \<or> Value v \<noteq> None),
      IsDeleted = (\<lambda>m. bit m 0),
      Fingerprint64 = (\<lambda>key. word_of_nat (length key)),
      sklGet = sampleLookup,
      sklEmpty = (\<lambda>skl. skl = []),
      newSkiplist = [],
      GetWithHint = (\<lambda>t cf key ver h. (sampleLookup (skls t ! nat cf) key ver, Suc h)),
      l0Get = (\<lambda>tbl cf key ver keyHash. sampleLookup tbl key ver),
      levelGet = (\<lambda>lv key ver keyHash. sampleLookup (concat (tables lv)) key ver),
      getSplittingIndex = (\<lambda>sh key. 0),
      allocCommitTS = (\<lambda>sh. (7, sh))\<rparr>"

definition put10 :: ValueStruct where
  "put10 = \<lparr>Meta = 2, UserMeta = Some [], Value = Some [118, 49, 48], Version = 10\<rparr>"

definition put20 :: ValueStruct where
  "put20 = \<lparr>Meta = 2, UserMeta = Some [], Value = Some [118, 50, 48], Version = 20\<rparr>"

definition del30 :: ValueStruct where
  "del30 = \<lparr>Meta = 1, UserMeta = Some [], Value = Some [], Version = 30\<rparr>"

text \<open>
  Scenario S2 of the specification: key \<open>k\<close> (byte 107) written at version 10, written
  again at 20 and deleted at 30. The active memtable holds the two newer records, an immutable
  memtable the oldest one.
\<close>

definition sampleActive :: "sampleTable Table" where
  "sampleActive = \<lparr>skls = [ [([107], del30), ([107], put20)] ], tbl_version = 0, flushing = 0\<rparr>"

definition sampleSealed :: "sampleTable Table" where
  "sampleSealed = \<lparr>skls = [ [([107], put10)] ], tbl_version = 15, flushing = 0\<rparr>"

definition sampleOlder :: "sampleTable Table" where
  "sampleOlder = \<lparr>skls = [ [] ], tbl_version = 5, flushing = 0\<rparr>"

definition sampleShard :: "(sampleTable, sampleTable, sampleTable) Shard" where
  "sampleShard =
     \<lparr>shardID = 1, shardVer = 1, memTbls = [sampleActive, sampleSealed, sampleOlder],
      l0Tbls = [], cfs = [\<lparr>levels = [\<lparr>tables = [], level = 1, totalSize = 0\<rparr>]\<rparr>],
      initialFlushed = True\<rparr>"

definition sampleSnap :: "(sampleTable, nat, sampleTable, sampleTable) SnapAccess" where
  "sampleSnap =
     \<lparr>sa_shard = sampleShard, sa_cfs = [\<lparr>Managed = True\<rparr>], hints = [0],
      memTables = [sampleActive, sampleSealed, sampleOlder], splitting = None,
      l0Tables = [], managedReadTS = 0\<rparr>"

text \<open>
  A record stored with meta byte 0, an empty value (not nil) and version 0, under key byte 109,
  and a snapshot whose only memtable holds it.
\<close>

definition storedEmpty :: ValueStruct where
  "storedEmpty = \<lparr>Meta = 0, UserMeta = Some [], Value = Some [], Version = 0\<rparr>"

definition emptyValueSnap :: "(sampleTable, nat, sampleTable, sampleTable) SnapAccess" where
  "emptyValueSnap =
     sampleSnap\<lparr>memTables := [\<lparr>skls = [ [([109], storedEmpty)] ], tbl_version = 0, flushing = 0\<rparr>]\<rparr>"

text \<open>A shard just opened: one empty memtable, nothing flushed yet.\<close>

definition freshTable :: "sampleTable Table" where
  "freshTable = \<lparr>skls = [ [] ], tbl_version = 0, flushing = 0\<rparr>"

definition freshShard :: "(sampleTable, sampleTable, sampleTable) Shard" where
  "freshShard =
     \<lparr>shardID = 2, shardVer = 1, memTbls = [freshTable],
      l0Tbls = [], cfs = [\<lparr>levels = []\<rparr>], initialFlushed = False\<rparr>"

definition sampleEngine :: "sampleTable Engine" where
  "sampleEngine = \<lparr>numCFs = 1, flushCh = []\<rparr>"

definition sampleEnv :: batchEnv where
  "sampleEnv =
     \<lparr>EncodedSize = (\<lambda>v. word_of_nat (sliceLen (Value v) + sliceLen (UserMeta v) + 2)),
      EstimateNodeSize = 20, BitDelete = 1, spareCap = (\<lambda>n. n)\<rparr>"

definition sampleBatch :: "unit WriteBatch" where
  "sampleBatch = NewWriteBatch [\<lparr>Managed = True\<rparr>, \<lparr>Managed = False\<rparr>] 2 ()"

text \<open>
  The answers of the Go library's \<open>time.ParseDuration\<close> on the strings of the examples:
  \<open>20s\<close> is twenty seconds, \<open>-1s\<close> is minus one second, and \<open>20\<close>, \<open>abc\<close> and \<open>abcs\<close>
  are rejected (the table answers an error on every string it does not list, and is used on
  the listed ones only).
\<close>

definition sampleParse :: "string \<Rightarrow> error + int64" where
  "sampleParse s =
     (if s = ''20s'' then Inr 20000000000
      else if s = ''-1s'' then Inr (- 1000000000)
      else Inl (Errorf ''time: invalid duration''))"

section \<open>Write batch: facts\<close>

lemma wb_inv_unfold:
  "wb_inv wb \<longleftrightarrow>
     length (entries wb) = length (cfConfs wb) \<and>
     entryArenaIdx wb \<le> length (entryArena wb) \<and>
     distinct (entryArena wb) \<and>
     (\<forall>a \<in> set (entryArena wb). a < length (cells wb)) \<and>
     (\<forall>es \<in> set (entries wb). \<forall>a \<in> set es.
        a < length (cells wb) \<and> a \<notin> set (drop (entryArenaIdx wb) (entryArena wb)))"
  by (simp add: wb_inv_def list_all_iff)

lemma drop_nth_Cons:
  assumes "i < length xs"
  shows "drop i xs = xs ! i # drop (Suc i) xs"
  using assms by (simp add: Cons_nth_drop_Suc)

lemma nth_notin_drop_Suc:
  assumes "distinct xs" "i < length xs"
  shows "xs ! i \<notin> set (drop (Suc i) xs)"
proof -
  have "distinct (drop i xs)" using assms(1) by simp
  then have "distinct (xs ! i # drop (Suc i) xs)"
    by (simp only: drop_nth_Cons [OF assms(2)])
  then show ?thesis by simp
qed

lemma nth_in_drop:
  assumes "i < length xs"
  shows "xs ! i \<in> set (drop i xs)"
  by (simp add: drop_nth_Cons [OF assms])

lemma set_drop_Suc_subset: "set (drop (Suc i) xs) \<subseteq> set (drop i xs)"
  by (rule set_drop_subset_set_drop) simp

lemma allocEntry_reuse:
  assumes free: "entryArenaIdx wb < length (entryArena wb)"
  shows "allocEntry env wb key val =
           Done (entryArena wb ! entryArenaIdx wb,
                 wb\<lparr>cells := (cells wb)[entryArena wb ! entryArenaIdx wb := \<lparr>Key = key, EntryValue = val\<rparr>],
                    entryArenaIdx := entryArenaIdx wb + 1\<rparr>)"
  using free by (simp add: allocEntry_def Let_def)

lemma growArena_fields:
  "entries (growArena env wb) = entries wb"
  "cfConfs (growArena env wb) = cfConfs wb"
  "estimatedSize (growArena env wb) = estimatedSize wb"
  "properties (growArena env wb) = properties wb"
  "wb_shard (growArena env wb) = wb_shard wb"
  "entryArenaIdx (growArena env wb) = entryArenaIdx wb"
  by (simp_all add: growArena_def Let_def)

lemma growArena_arena:
  "entryArena (growArena env wb) =
     [length (cells wb) ..< length (cells wb) + (Suc (length (entryArena wb)) + spareCap env (length (entryArena wb)))]"
  by (simp add: growArena_def Let_def del: upt_Suc)

lemma growArena_length_cells:
  "length (cells (growArena env wb)) =
     length (cells wb) + (Suc (length (entryArena wb)) + spareCap env (length (entryArena wb)))"
  by (simp add: growArena_def Let_def)

lemma growArena_old_cells:
  "a < length (cells wb) \<Longrightarrow> cells (growArena env wb) ! a = cells wb ! a"
  by (simp add: growArena_def Let_def nth_append)

lemma growArena_nth:
  "entryArena (growArena env wb) ! length (entryArena wb) = length (cells wb) + length (entryArena wb)"
  unfolding growArena_arena by (rule nth_upt) simp

lemma allocEntry_grow:
  assumes full: "entryArenaIdx wb = length (entryArena wb)"
  shows "allocEntry env wb key val =
           Done (length (cells wb) + length (entryArena wb),
                 (growArena env wb)\<lparr>cells := (cells (growArena env wb))[length (cells wb) + length (entryArena wb) := \<lparr>Key = key, EntryValue = val\<rparr>],
                    entryArenaIdx := length (entryArena wb) + 1\<rparr>)"
proof -
  have lt: "entryArenaIdx (growArena env wb) < length (entryArena (growArena env wb))"
    unfolding growArena_arena growArena_fields full by simp
  have "allocEntry env wb key val =
          (let wb1 = growArena env wb
           in if entryArenaIdx wb1 < length (entryArena wb1)
         then (let e = entryArena wb1 ! entryArenaIdx wb1
               in Done (e, wb1\<lparr>cells := (cells wb1)[e := \<lparr>Key = key, EntryValue = val\<rparr>],
                              entryArenaIdx := entryArenaIdx wb1 + 1\<rparr>))
         else Panic)"
    unfolding allocEntry_def full by simp
  also have "\<dots> = Done (entryArena (growArena env wb) ! entryArenaIdx (growArena env wb),
                   (growArena env wb)\<lparr>cells := (cells (growArena env wb))[entryArena (growArena env wb) ! entryArenaIdx (growArena env wb) := \<lparr>Key = key, EntryValue = val\<rparr>],
                              entryArenaIdx := entryArenaIdx (growArena env wb) + 1\<rparr>)"
    unfolding Let_def using lt by (rule if_P)
  finally show ?thesis
    unfolding growArena_fields full growArena_nth .
qed

lemma allocPost_reuse:
  assumes inv: "wb_inv wb" and free: "entryArenaIdx wb < length (entryArena wb)"
  shows "allocPost wb key val (entryArena wb ! entryArenaIdx wb)
           (wb\<lparr>cells := (cells wb)[entryArena wb ! entryArenaIdx wb := \<lparr>Key = key, EntryValue = val\<rparr>],
               entryArenaIdx := entryArenaIdx wb + 1\<rparr>)"
proof -
  let ?i = "entryArenaIdx wb"
  let ?e = "entryArena wb ! ?i"
  have d: "distinct (entryArena wb)" and
       ar: "\<forall>a \<in> set (entryArena wb). a < length (cells wb)" and
       en: "\<forall>es \<in> set (entries wb). \<forall>a \<in> set es. a < length (cells wb) \<and> a \<notin> set (drop ?i (entryArena wb))"
    using inv by (simp_all add: wb_inv_unfold)
  have e_lt: "?e < length (cells wb)" using ar free by simp
  have e_in: "?e \<in> set (drop ?i (entryArena wb))" using free by (rule nth_in_drop)
  have e_notin: "?e \<notin> set (drop (Suc ?i) (entryArena wb))"
    using d free by (rule nth_notin_drop_Suc)
  have old: "a < length (cells wb) \<and> a \<notin> set (drop (Suc ?i) (entryArena wb)) \<and>
              ((cells wb)[?e := \<lparr>Key = key, EntryValue = val\<rparr>]) ! a = cells wb ! a"
    if "es \<in> set (entries wb)" "a \<in> set es" for es a
  proof -
    have a: "a < length (cells wb)" "a \<notin> set (drop ?i (entryArena wb))" using en that by auto
    then have "a \<noteq> ?e" using e_in by auto
    moreover have "a \<notin> set (drop (Suc ?i) (entryArena wb))"
      using a(2) set_drop_Suc_subset by fastforce
    ultimately show ?thesis using a(1) by simp
  qed
  show ?thesis
    unfolding allocPost_def
    apply (intro conjI)
    subgoal by simp
    subgoal by simp
    subgoal by simp
    subgoal by simp
    subgoal by simp
    subgoal using free by simp
    subgoal using d by simp
    subgoal using ar by simp
    subgoal using e_lt by simp
    subgoal using e_notin by simp
    subgoal using e_lt by simp
    subgoal using old by simp
    done
qed

lemma allocPost_grow:
  assumes inv: "wb_inv wb"
  shows "allocPost wb key val (length (cells wb) + length (entryArena wb))
           ((growArena env wb)\<lparr>cells := (cells (growArena env wb))[length (cells wb) + length (entryArena wb) := \<lparr>Key = key, EntryValue = val\<rparr>],
                    entryArenaIdx := length (entryArena wb) + 1\<rparr>)"
proof -
  let ?n = "length (entryArena wb)"
  let ?base = "length (cells wb)"
  let ?e = "?base + ?n"
  let ?g = "growArena env wb"
  let ?top = "?base + (Suc ?n + spareCap env ?n)"
  let ?new = "\<lparr>Key = key, EntryValue = val\<rparr>"
  let ?wb1 = "?g\<lparr>cells := (cells ?g)[?e := ?new], entryArenaIdx := ?n + 1\<rparr>"
  have en: "\<forall>es \<in> set (entries wb). \<forall>a \<in> set es. a < length (cells wb)"
    using inv by (simp add: wb_inv_unfold)
  have f_idx: "entryArenaIdx ?wb1 = Suc ?n" by simp
  have f_arena: "entryArena ?wb1 = [?base ..< ?top]"
    by (simp add: growArena_arena del: upt_Suc)
  have f_cells: "cells ?wb1 = (cells ?g)[?e := ?new]" by simp
  have lenc: "length ((cells ?g)[?e := ?new]) = ?top"
    by (simp add: growArena_length_cells)
  have dr: "set (drop (Suc ?n) [?base ..< ?top]) = {?base + Suc ?n ..< ?top}"
    by (simp only: drop_upt set_upt)
  have old: "a < ?top \<and> a \<notin> {?base + Suc ?n ..< ?top} \<and>
              ((cells ?g)[?e := ?new]) ! a = cells wb ! a"
    if "es \<in> set (entries wb)" "a \<in> set es" for es a
  proof -
    have a: "a < ?base" using en that by auto
    then show ?thesis using growArena_old_cells [OF a, of env] by simp
  qed
  show ?thesis
    unfolding allocPost_def f_idx f_arena f_cells lenc dr
    apply (intro conjI)
    subgoal by (simp add: growArena_fields)
    subgoal by (simp add: growArena_fields)
    subgoal by (simp add: growArena_fields)
    subgoal by (simp add: growArena_fields)
    subgoal by (simp add: growArena_fields)
    subgoal by simp
    subgoal by simp
    subgoal by simp
    subgoal by simp
    subgoal by simp
    subgoal using lenc by simp
    subgoal using old by blast
    done
qed

lemma allocEntry_spec:
  assumes inv: "wb_inv wb"
  shows "\<exists>e wb1. allocEntry env wb key val = Done (e, wb1) \<and> allocPost wb key val e wb1"
proof (cases "entryArenaIdx wb < length (entryArena wb)")
  case True
  show ?thesis
    using allocEntry_reuse [OF True] allocPost_reuse [OF inv True] by blast
next
  case False
  then have full: "entryArenaIdx wb = length (entryArena wb)"
    using inv by (simp add: wb_inv_unfold)
  show ?thesis
    using allocEntry_grow [OF full] allocPost_grow [OF inv] by blast
qed

lemma batchEntries_nth:
  "cf < length (entries wb) \<Longrightarrow> batchEntries wb ! cf = map (\<lambda>a. cells wb ! a) (entries wb ! cf)"
  by (simp add: batchEntries_def)

text \<open>Appending the address of a freshly written cell to one entry list.\<close>
lemma appendEntry_post:
  fixes sz :: int
  assumes inv: "wb_inv wb" and cf: "cf < length (cfConfs wb)"
    and post: "allocPost wb key val e wb1"
  defines "wb' \<equiv> wb1\<lparr>entries := (entries wb1)[cf := entries wb1 ! cf @ [e] ],
                      estimatedSize := estimatedSize wb1 + word_of_int sz\<rparr>"
  shows "wb_inv wb'"
    and "batchEntries wb' = (batchEntries wb)[cf := batchEntries wb ! cf @ [\<lparr>Key = key, EntryValue = val\<rparr>] ]"
    and "cfConfs wb' = cfConfs wb"
    and "estimatedSize wb' = estimatedSize wb + word_of_int sz"
    and "properties wb' = properties wb"
    and "wb_shard wb' = wb_shard wb"
proof -
  have len: "length (entries wb) = length (cfConfs wb)" using inv by (simp add: wb_inv_unfold)
  have p: "entries wb1 = entries wb" "cfConfs wb1 = cfConfs wb"
      "estimatedSize wb1 = estimatedSize wb" "properties wb1 = properties wb"
      "wb_shard wb1 = wb_shard wb"
      "entryArenaIdx wb1 \<le> length (entryArena wb1)" "distinct (entryArena wb1)"
      "\<forall>a \<in> set (entryArena wb1). a < length (cells wb1)"
      "e < length (cells wb1)"
      "e \<notin> set (drop (entryArenaIdx wb1) (entryArena wb1))"
      "cells wb1 ! e = \<lparr>Key = key, EntryValue = val\<rparr>"
    using post by (simp_all add: allocPost_def)
  have old: "\<And>es a. es \<in> set (entries wb) \<Longrightarrow> a \<in> set es \<Longrightarrow>
         a < length (cells wb1) \<and> a \<notin> set (drop (entryArenaIdx wb1) (entryArena wb1)) \<and>
         cells wb1 ! a = cells wb ! a"
    using post by (simp add: allocPost_def)
  have f: "entries wb' = (entries wb)[cf := entries wb ! cf @ [e] ]"
      "cells wb' = cells wb1" "entryArena wb' = entryArena wb1"
      "entryArenaIdx wb' = entryArenaIdx wb1" "cfConfs wb' = cfConfs wb"
    by (simp_all add: wb'_def p)
  have mem: "es \<in> set (entries wb) \<or> es = entries wb ! cf @ [e]"
    if "es \<in> set ((entries wb)[cf := entries wb ! cf @ [e] ])" for es
    using that set_update_subset_insert by fastforce
  have cf_in: "entries wb ! cf \<in> set (entries wb)" using cf len by simp
  have new: "a < length (cells wb1) \<and> a \<notin> set (drop (entryArenaIdx wb1) (entryArena wb1))"
    if "es \<in> set ((entries wb)[cf := entries wb ! cf @ [e] ])" "a \<in> set es" for es a
  proof -
    from mem [OF that(1)] show ?thesis
    proof
      assume "es \<in> set (entries wb)" then show ?thesis using old that(2) by blast
    next
      assume "es = entries wb ! cf @ [e]"
      then have "a \<in> set (entries wb ! cf) \<or> a = e" using that(2) by auto
      then show ?thesis using old [OF cf_in] p(9,10) by blast
    qed
  qed
  show "wb_inv wb'"
    unfolding wb_inv_unfold f
    using len p(6,7,8) new by simp
  have same: "map (\<lambda>a. cells wb1 ! a) es = map (\<lambda>a. cells wb ! a) es" if "es \<in> set (entries wb)" for es
    using old [OF that] by simp
  have "batchEntries wb' = map (map (\<lambda>a. cells wb1 ! a)) ((entries wb)[cf := entries wb ! cf @ [e] ])"
    by (simp add: batchEntries_def f)
  also have "\<dots> = (map (map (\<lambda>a. cells wb1 ! a)) (entries wb))[cf := map (\<lambda>a. cells wb1 ! a) (entries wb ! cf @ [e])]"
    by (simp add: map_update)
  also have "map (map (\<lambda>a. cells wb1 ! a)) (entries wb) = batchEntries wb"
    unfolding batchEntries_def using same by simp
  also have "map (\<lambda>a. cells wb1 ! a) (entries wb ! cf @ [e]) = batchEntries wb ! cf @ [\<lparr>Key = key, EntryValue = val\<rparr>]"
    using same [OF cf_in] p(11) cf len by (simp add: batchEntries_nth)
  finally show "batchEntries wb' = (batchEntries wb)[cf := batchEntries wb ! cf @ [\<lparr>Key = key, EntryValue = val\<rparr>] ]" .
  show "cfConfs wb' = cfConfs wb" by (simp add: wb'_def p)
  show "estimatedSize wb' = estimatedSize wb + word_of_int sz" by (simp add: wb'_def p)
  show "properties wb' = properties wb" by (simp add: wb'_def p)
  show "wb_shard wb' = wb_shard wb" by (simp add: wb'_def p)
qed

lemma appendEntry_spec:
  assumes inv: "wb_inv wb" and cf: "cf < length (cfConfs wb)"
  shows "\<exists>wb'. appendEntry env wb cf key val sz = Done (None, wb') \<and> appended wb cf key val sz wb'"
proof -
  obtain e wb1 where a: "allocEntry env wb key val = Done (e, wb1)" and post: "allocPost wb key val e wb1"
    using allocEntry_spec [OF inv] by blast
  let ?wb' = "wb1\<lparr>entries := (entries wb1)[cf := entries wb1 ! cf @ [e] ],
                      estimatedSize := estimatedSize wb1 + word_of_int sz\<rparr>"
  have len: "length (entries wb) = length (cfConfs wb)" using inv by (simp add: wb_inv_unfold)
  have "appendEntry env wb cf key val sz = Done (None, ?wb')"
    using cf len a by (simp add: appendEntry_def)
  moreover have "appended wb cf key val sz ?wb'"
    unfolding appended_def using appendEntry_post [OF inv cf post, of sz] by blast
  ultimately show ?thesis by blast
qed

lemma wb_inv_NewWriteBatch: "n = length cs \<Longrightarrow> wb_inv (NewWriteBatch cs n sh)"
  by (simp add: wb_inv_def NewWriteBatch_def list_all_iff)

lemma wb_inv_Reset: "wb_inv wb \<Longrightarrow> wb_inv (Reset wb)"
  by (simp add: wb_inv_unfold Reset_def)

lemma wb_inv_SetProperty: "wb_inv wb \<Longrightarrow> wb_inv (SetProperty wb k v)"
  by (simp add: wb_inv_unfold SetProperty_def)

lemma appendEntry_not_error: "appendEntry env wb cf key val sz \<noteq> Done (Some e, wb')"
  by (simp add: appendEntry_def split: outcome.splits prod.splits)

lemma Put_mismatch:
  assumes "0 \<le> cf" "nat cf < length (cfConfs wb)"
    and "versionMismatch (cfConfs wb ! nat cf) (Version val)"
  shows "\<exists>msg. Put env wb cf key val = Done (Some (Errorf msg), wb)"
  using assms by (auto simp: Put_def versionMismatch_def)

lemma Put_match:
  assumes "0 \<le> cf" "nat cf < length (cfConfs wb)"
    and "\<not> versionMismatch (cfConfs wb ! nat cf) (Version val)"
  shows "Put env wb cf key val = appendEntry env wb (nat cf) key val
           (int (length key) + uint (EncodedSize env val) + EstimateNodeSize env)"
  using assms by (auto simp: Put_def versionMismatch_def)

lemma Delete_mismatch:
  assumes "unat cf < length (cfConfs wb)"
    and "versionMismatch (cfConfs wb ! unat cf) version"
  shows "\<exists>msg. Delete env wb cf key version = Done (Some (Errorf msg), wb)"
  using assms by (auto simp: Delete_def versionMismatch_def)

lemma Delete_match:
  assumes "unat cf < length (cfConfs wb)"
    and "\<not> versionMismatch (cfConfs wb ! unat cf) version"
  shows "Delete env wb cf key version = appendEntry env wb (unat cf) key
           \<lparr>Meta = BitDelete env, UserMeta = None, Value = None, Version = version\<rparr>
           (int (length key) + EstimateNodeSize env)"
  using assms by (auto simp: Delete_def versionMismatch_def)

lemma Put_error_unchanged:
  "Put env wb cf key val = Done (Some e, wb') \<Longrightarrow> wb' = wb"
  by (auto simp: Put_def appendEntry_not_error split: if_splits)

lemma Delete_error_unchanged:
  "Delete env wb cf key version = Done (Some e, wb') \<Longrightarrow> wb' = wb"
  by (auto simp: Delete_def appendEntry_not_error split: if_splits)

lemma Put_spec:
  assumes inv: "wb_inv wb" and cf: "0 \<le> cf" "nat cf < length (cfConfs wb)"
  shows "((\<exists>e wb'. Put env wb cf key val = Done (Some e, wb')) \<longleftrightarrow>
            versionMismatch (cfConfs wb ! nat cf) (Version val)) \<and>
         (\<not> versionMismatch (cfConfs wb ! nat cf) (Version val) \<longrightarrow>
            (\<exists>wb'. Put env wb cf key val = Done (None, wb') \<and>
               appended wb (nat cf) key val
                 (int (length key) + uint (EncodedSize env val) + EstimateNodeSize env) wb'))"
proof (cases "versionMismatch (cfConfs wb ! nat cf) (Version val)")
  case True
  then show ?thesis using Put_mismatch [OF cf True] by blast
next
  case False
  obtain wb' where "Put env wb cf key val = Done (None, wb')"
     "appended wb (nat cf) key val
                 (int (length key) + uint (EncodedSize env val) + EstimateNodeSize env) wb'"
    using appendEntry_spec [OF inv cf(2)] Put_match [OF cf False] by metis
  then show ?thesis using False by auto
qed

lemma Delete_spec:
  assumes inv: "wb_inv wb" and cf: "unat cf < length (cfConfs wb)"
  shows "((\<exists>e wb'. Delete env wb cf key version = Done (Some e, wb')) \<longleftrightarrow>
            versionMismatch (cfConfs wb ! unat cf) version) \<and>
         (\<not> versionMismatch (cfConfs wb ! unat cf) version \<longrightarrow>
            (\<exists>wb'. Delete env wb cf key version = Done (None, wb') \<and>
               appended wb (unat cf) key
                 \<lparr>Meta = BitDelete env, UserMeta = None, Value = None, Version = version\<rparr>
                 (int (length key) + EstimateNodeSize env) wb'))"
proof (cases "versionMismatch (cfConfs wb ! unat cf) version")
  case True
  then show ?thesis using Delete_mismatch [OF cf True] by blast
next
  case False
  obtain wb' where "Delete env wb cf key version = Done (None, wb')"
     "appended wb (unat cf) key
                 \<lparr>Meta = BitDelete env, UserMeta = None, Value = None, Version = version\<rparr>
                 (int (length key) + EstimateNodeSize env) wb'"
    using appendEntry_spec [OF inv cf] Delete_match [OF cf False] by metis
  then show ?thesis using False by auto
qed

lemma sumLengths_nil: "sumLengths n (map (\<lambda>es. []) xs) = n"
  by (induction xs arbitrary: n) simp_all

lemma sumLengths_replicate: "sumLengths n (replicate k []) = n"
  by (induction k arbitrary: n) simp_all

text \<open>
  C2: on a batch in a state its methods produce and a column family of the batch, \<open>Put\<close>
  and \<open>Delete\<close> answer an error exactly when the managed flag of the column family and the
  version do not match (managed with version 0, unmanaged with a version other than 0); on a
  match they answer no error and the entry is appended to the entries of its column family.
\<close>

theorem Put_Delete_error_iff_mismatch:
  assumes inv: "wb_inv wb"
    and cf: "0 \<le> cf" "nat cf < length (cfConfs wb)"
    and cfb: "unat cfb < length (cfConfs wb)"
  shows "((\<exists>e wb'. Put env wb cf key val = Done (Some e, wb')) \<longleftrightarrow>
            versionMismatch (cfConfs wb ! nat cf) (Version val)) \<and>
         (\<not> versionMismatch (cfConfs wb ! nat cf) (Version val) \<longrightarrow>
            (\<exists>wb'. Put env wb cf key val = Done (None, wb') \<and> wb_inv wb' \<and>
               batchEntries wb' =
                 (batchEntries wb)[nat cf := batchEntries wb ! nat cf @ [\<lparr>Key = key, EntryValue = val\<rparr>] ])) \<and>
         ((\<exists>e wb'. Delete env wb cfb key ver = Done (Some e, wb')) \<longleftrightarrow>
            versionMismatch (cfConfs wb ! unat cfb) ver) \<and>
         (\<not> versionMismatch (cfConfs wb ! unat cfb) ver \<longrightarrow>
            (\<exists>wb'. Delete env wb cfb key ver = Done (None, wb') \<and> wb_inv wb' \<and>
               batchEntries wb' =
                 (batchEntries wb)[unat cfb := batchEntries wb ! unat cfb @
                    [\<lparr>Key = key, EntryValue =
                        \<lparr>Meta = BitDelete env, UserMeta = None, Value = None, Version = ver\<rparr>\<rparr>] ]))"
  using Put_spec [OF inv cf, of env key val] Delete_spec [OF inv cfb, of env key ver]
  unfolding appended_def by blast

theorem Put_Delete_error_iff_mismatch_witness:
  "wb_inv sampleBatch \<and> (0::int) \<le> 0 \<and> nat 0 < length (cfConfs sampleBatch) \<and>
   unat (1 :: byte) < length (cfConfs sampleBatch) \<and>
   (\<exists>wb'. Put sampleEnv sampleBatch 0 [107] put10 = Done (None, wb') \<and>
          batchEntries wb' = [ [\<lparr>Key = [107], EntryValue = put10\<rparr>], [] ]) \<and>
   (\<exists>e wb'. Delete sampleEnv sampleBatch 1 [107] 30 = Done (Some e, wb'))"
proof -
  have inv: "wb_inv sampleBatch"
    unfolding sampleBatch_def by (rule wb_inv_NewWriteBatch) simp
  have cf: "(0::int) \<le> 0" "nat 0 < length (cfConfs sampleBatch)"
    by (simp_all add: sampleBatch_def NewWriteBatch_def)
  have cfb: "unat (1 :: byte) < length (cfConfs sampleBatch)"
    by (simp add: sampleBatch_def NewWriteBatch_def)
  have m1: "\<not> versionMismatch (cfConfs sampleBatch ! nat 0) (Version put10)"
    by (simp add: sampleBatch_def NewWriteBatch_def versionMismatch_def put10_def)
  have m2: "versionMismatch (cfConfs sampleBatch ! unat (1 :: byte)) 30"
    by (simp add: sampleBatch_def NewWriteBatch_def versionMismatch_def)
  have be: "batchEntries sampleBatch = [ [], [] ]"
    by (simp add: sampleBatch_def NewWriteBatch_def batchEntries_def numeral_2_eq_2)
  show ?thesis
    using Put_Delete_error_iff_mismatch [OF inv cf cfb, where env = sampleEnv and key = "[107]"
        and val = put10 and ver = 30]
      inv cf cfb m1 m2 be by simp blast
qed

text \<open>
  C9: a \<open>Put\<close> or \<open>Delete\<close> rejected for a mismatch of managed flag and version returns the
  batch as it was: entry lists, estimated size, properties and entry pool are untouched.
\<close>

theorem rejected_call_leaves_batch:
  "(0 \<le> cf \<and> nat cf < length (cfConfs wb) \<and> versionMismatch (cfConfs wb ! nat cf) (Version val) \<longrightarrow>
      (\<exists>msg. Put env wb cf key val = Done (Some (Errorf msg), wb))) \<and>
   (unat cfb < length (cfConfs wb) \<and> versionMismatch (cfConfs wb ! unat cfb) ver \<longrightarrow>
      (\<exists>msg. Delete env wb cfb key ver = Done (Some (Errorf msg), wb))) \<and>
   (\<forall>e wb'. Put env wb cf key val = Done (Some e, wb') \<longrightarrow> wb' = wb) \<and>
   (\<forall>e wb'. Delete env wb cfb key ver = Done (Some e, wb') \<longrightarrow> wb' = wb)"
  using Put_mismatch [of cf wb val env key] Delete_mismatch [of cfb wb ver env key]
    Put_error_unchanged [of env wb cf key val] Delete_error_unchanged [of env wb cfb key ver]
  by blast

theorem rejected_call_leaves_batch_witness:
  "versionMismatch (cfConfs sampleBatch ! nat 1) (Version put10) \<and>
   versionMismatch (cfConfs sampleBatch ! unat (0 :: byte)) 0 \<and>
   Put sampleEnv sampleBatch 1 [107] put10 =
     Done (Some (Errorf ''version is not zero for non-managed CF''), sampleBatch) \<and>
   Delete sampleEnv sampleBatch 0 [107] 0 =
     Done (Some (Errorf ''version is zero for managed CF''), sampleBatch)"
proof -
  have m1: "versionMismatch (cfConfs sampleBatch ! nat 1) (Version put10)"
    by (simp add: sampleBatch_def NewWriteBatch_def versionMismatch_def put10_def)
  have m2: "versionMismatch (cfConfs sampleBatch ! unat (0 :: byte)) 0"
    by (simp add: sampleBatch_def NewWriteBatch_def versionMismatch_def)
  have r: "(1::int) \<ge> 0 \<and> nat 1 < length (cfConfs sampleBatch)"
      "unat (0 :: byte) < length (cfConfs sampleBatch)"
    by (simp_all add: sampleBatch_def NewWriteBatch_def)
  obtain msg1 msg2 where
    p: "Put sampleEnv sampleBatch 1 [107] put10 = Done (Some (Errorf msg1), sampleBatch)" and
    d: "Delete sampleEnv sampleBatch 0 [107] 0 = Done (Some (Errorf msg2), sampleBatch)"
    using rejected_call_leaves_batch [where cf = 1 and wb = sampleBatch and val = put10
        and env = sampleEnv and key = "[107]" and cfb = 0 and ver = 0] m1 m2 r
    by blast
  have "msg1 = ''version is not zero for non-managed CF''"
    using p by (simp add: Put_def sampleBatch_def NewWriteBatch_def put10_def)
  moreover have "msg2 = ''version is zero for managed CF''"
    using d by (simp add: Delete_def sampleBatch_def NewWriteBatch_def)
  ultimately show ?thesis using p d m1 m2 by simp
qed

text \<open>
  C10: after \<open>Reset\<close> a batch in any state shows what a new batch shows: \<open>NumEntries\<close> and
  \<open>EstimatedSize\<close> are 0, the properties are empty, and \<open>Iterate\<close> visits no entry of any
  column family (the visitor's state comes back unchanged).
\<close>

theorem Reset_like_fresh:
  "NumEntries (Reset wb) = 0 \<and> EstimatedSize (Reset wb) = 0 \<and>
   properties (Reset wb) = Map.empty \<and>
   Iterate (Reset wb) cf fn st =
     (if 0 \<le> cf \<and> nat cf < length (entries wb) then Done st else Panic) \<and>
   NumEntries (NewWriteBatch (cfConfs wb) (length (entries wb)) (wb_shard wb)) = NumEntries (Reset wb) \<and>
   EstimatedSize (NewWriteBatch (cfConfs wb) (length (entries wb)) (wb_shard wb)) = EstimatedSize (Reset wb) \<and>
   properties (NewWriteBatch (cfConfs wb) (length (entries wb)) (wb_shard wb)) = properties (Reset wb) \<and>
   Iterate (NewWriteBatch (cfConfs wb) (length (entries wb)) (wb_shard wb)) cf fn st =
     Iterate (Reset wb) cf fn st"
  by (simp add: NumEntries_def EstimatedSize_def Reset_def Iterate_def NewWriteBatch_def
        sumLengths_nil sumLengths_replicate)

section \<open>Snapshot reads: facts\<close>

lemma find_append_split:
  "find P (xs @ ys) = (case find P xs of Some x \<Rightarrow> Some x | None \<Rightarrow> find P ys)"
  by (induction xs) simp_all

lemma probeL0_find:
  "probeL0 d tbls cf key ver keyHash =
     find (Valid d) (map (\<lambda>tbl. l0Get d tbl cf key ver keyHash) tbls)"
  by (induction tbls) (simp_all add: Let_def)

lemma probeLevels_find:
  "probeLevels d lvs key ver keyHash =
     find (Valid d) (map (\<lambda>lv. levelGet d lv key ver keyHash)
        (filter (\<lambda>lv. tables lv \<noteq> []) lvs))"
  by (induction lvs) (simp_all add: Let_def)

lemma probeMemTables_rest:
  assumes "0 \<le> cf" "list_all (\<lambda>t. nat cf < length (skls t)) ts" "i \<noteq> 0"
  shows "probeMemTables d i ts cf key ver hs =
           Done (find (Valid d) (map (\<lambda>t. sklGet d (skls t ! nat cf) key ver) ts), hs)"
  using assms
  by (induction ts arbitrary: i) (simp_all add: Table_Get_def)

lemma probeMemTables_first:
  assumes "0 \<le> cf" "nat cf < length hs" "list_all (\<lambda>t. nat cf < length (skls t)) ts"
  shows "probeMemTables d 0 (t0 # ts) cf key ver hs =
           Done (find (Valid d)
                   (fst (GetWithHint d t0 cf key ver (hs ! nat cf))
                      # map (\<lambda>t. sklGet d (skls t ! nat cf) key ver) ts),
                 hs[nat cf := snd (GetWithHint d t0 cf key ver (hs ! nat cf))])"
  using assms probeMemTables_rest [of cf ts "Suc 0" d key ver]
  by (simp add: split_beta)

lemma probeSplitting_ok:
  assumes "snapOK d s cf key"
  shows "probeSplitting d s cf key ver =
          Done (find (Valid d) (case splitting s of
        None \<Rightarrow> []
      | Some tbls \<Rightarrow>
          [sklGet d (skls (tbls ! nat (getSplittingIndex d (sa_shard s) key)) ! nat cf) key ver]))"
proof (cases "splitting s")
  case None
  then show ?thesis by (simp add: probeSplitting_def)
next
  case (Some tbls)
  then show ?thesis
    using assms by (simp add: probeSplitting_def snapOK_def Table_Get_def Let_def)
qed

lemma getValue_firstValid:
  assumes ok: "snapOK d s cf key"
  shows "getValue d s cf key ver =
           Done (firstValid d (probeOrder d s cf key ver), hintsAfter d s cf key ver)"
proof -
  have cf: "0 \<le> cf" "nat cf < length (hints s)" "nat cf < length (cfs (sa_shard s))"
       "list_all (\<lambda>t. nat cf < length (skls t)) (memTables s)"
    using ok by (simp_all add: snapOK_def)
  let ?sp = "case splitting s of
        None \<Rightarrow> []
      | Some tbls \<Rightarrow>
          [sklGet d (skls (tbls ! nat (getSplittingIndex d (sa_shard s) key)) ! nat cf) key ver]"
  let ?mem = "case memTables s of
          [] \<Rightarrow> []
        | memTbl # rest \<Rightarrow>
            fst (GetWithHint d memTbl cf key ver (hints s ! nat cf))
              # map (\<lambda>t. sklGet d (skls t ! nat cf) key ver) rest"
  let ?hs = "case memTables s of
                [] \<Rightarrow> hints s
              | memTbl # rest \<Rightarrow>
                  (hints s)[nat cf := snd (GetWithHint d memTbl cf key ver (hints s ! nat cf))]"
  let ?l0 = "map (\<lambda>tbl. l0Get d tbl cf key ver (Fingerprint64 d key)) (l0Tables s)"
  let ?lv = "map (\<lambda>lv. levelGet d lv key ver (Fingerprint64 d key))
         (filter (\<lambda>lv. tables lv \<noteq> []) (levels (cfs (sa_shard s) ! nat cf)))"
  have sp: "probeSplitting d s cf key ver = Done (find (Valid d) ?sp)"
    using ok by (rule probeSplitting_ok)
  have mem: "probeMemTables d 0 (memTables s) cf key ver (hints s) = Done (find (Valid d) ?mem, ?hs)"
  proof (cases "memTables s")
    case Nil
    then show ?thesis by simp
  next
    case (Cons t0 ts)
    then show ?thesis using cf probeMemTables_first [of cf "hints s" ts d t0 key ver] by simp
  qed
  have po: "probeOrder d s cf key ver = ?sp @ ?mem @ ?l0 @ ?lv"
    by (simp add: probeOrder_def)
  show ?thesis
  proof (cases "find (Valid d) ?sp")
    case (Some v)
    then show ?thesis
      unfolding getValue_def Let_def hintsAfter_def firstValid_def po sp
      by (simp add: find_append_split)
  next
    case None
    note spN = None
    show ?thesis
    proof (cases "find (Valid d) ?mem")
      case (Some v)
      then show ?thesis
        unfolding getValue_def Let_def hintsAfter_def firstValid_def po sp mem
        using spN by (simp add: find_append_split)
    next
      case None
      then show ?thesis
        unfolding getValue_def Let_def hintsAfter_def firstValid_def po sp mem
        using spN cf(1,3)
        by (simp add: find_append_split probeL0_find probeLevels_find split: option.splits)
    qed
  qed
qed

lemma Get_via_getValue:
  assumes ok: "snapOK d s cf key"
  shows "Get d s cf key ver0 =
     (let ver = (if ver0 = 0 then MaxUint64 else ver0);
          vs = firstValid d (probeOrder d s cf key ver);
          s' = s\<lparr>hints := hintsAfter d s cf key ver\<rparr>
      in if \<not> Valid d vs \<or> IsDeleted d (Meta vs) then Done (Inl ErrKeyNotFound, s')
         else Done (Inr \<lparr>item_key = key, item_ver = Version vs, item_meta = Meta vs,
                              item_userMeta = UserMeta vs, item_val = Value vs\<rparr>, s'))"
  unfolding Get_def Let_def getValue_firstValid [OF ok] by simp

lemma find_Some_holds: "find P xs = Some x \<Longrightarrow> P x"
  by (induction xs) (auto split: if_splits)

lemma firstValid_cases:
  assumes z: "\<not> Valid d zeroValueStruct"
  shows "find (Valid d) rs = None \<Longrightarrow> \<not> Valid d (firstValid d rs)"
    and "find (Valid d) rs = Some v \<Longrightarrow> firstValid d rs = v \<and> Valid d v"
  using z by (auto simp: firstValid_def dest: find_Some_holds)

lemma Get_NotFound_cases:
  assumes ok: "snapOK d s cf key" and z: "\<not> Valid d zeroValueStruct"
  shows "(case find (Valid d) (probeOrder d s cf key (if ver0 = 0 then MaxUint64 else ver0)) of
            None \<Rightarrow> Get d s cf key ver0 =
                      Done (Inl ErrKeyNotFound,
                            s\<lparr>hints := hintsAfter d s cf key (if ver0 = 0 then MaxUint64 else ver0)\<rparr>)
          | Some v \<Rightarrow>
              Get d s cf key ver0 =
                (if IsDeleted d (Meta v)
                 then Done (Inl ErrKeyNotFound,
                            s\<lparr>hints := hintsAfter d s cf key (if ver0 = 0 then MaxUint64 else ver0)\<rparr>)
                 else Done (Inr \<lparr>item_key = key, item_ver = Version v, item_meta = Meta v,
                                  item_userMeta = UserMeta v, item_val = Value v\<rparr>,
                            s\<lparr>hints := hintsAfter d s cf key (if ver0 = 0 then MaxUint64 else ver0)\<rparr>)))"
proof (cases "find (Valid d) (probeOrder d s cf key (if ver0 = 0 then MaxUint64 else ver0))")
  case None
  then show ?thesis
    using firstValid_cases(1) [OF z None]
    by (simp add: Get_via_getValue [OF ok] Let_def)
next
  case (Some v)
  then show ?thesis
    using firstValid_cases(2) [OF z Some]
    by (simp add: Get_via_getValue [OF ok] Let_def)
qed

text \<open>
  C1: on a snapshot where the lookup indexes nothing out of range, \<open>getValue\<close> answers the
  first valid record in the fixed order of \<open>probeOrder\<close>: the splitting memtable chosen by
  \<open>getSplittingIndex\<close> when the shard is splitting, then the memtables from index 0 (only
  index 0 through the hint of the column family, which is the only hint the lookup changes),
  then the L0 tables in their order with the fingerprint of the key, then one lookup in each
  level of the column family that has tables; when no record is valid it answers the zero
  record.
\<close>

theorem getValue_probes_in_order:
  assumes "snapOK d s cf key"
  shows "getValue d s cf key ver =
           Done (firstValid d (probeOrder d s cf key ver), hintsAfter d s cf key ver)"
  using assms by (rule getValue_firstValid)

lemma snapOK_sample: "snapOK sampleDeps sampleSnap 0 [107]"
  by (simp add: snapOK_def sampleDeps_def sampleSnap_def sampleShard_def sampleActive_def
        sampleSealed_def sampleOlder_def)

lemma probeOrder_sample:
  "probeOrder sampleDeps sampleSnap 0 [107] ver =
     [sampleLookup [([107], del30), ([107], put20)] [107] ver,
      sampleLookup [([107], put10)] [107] ver,
      sampleLookup [] [107] ver]"
  by (simp add: probeOrder_def sampleDeps_def sampleSnap_def sampleShard_def sampleActive_def
        sampleSealed_def sampleOlder_def)

theorem getValue_probes_in_order_witness:
  "snapOK sampleDeps sampleSnap 0 [107] \<and>
   probeOrder sampleDeps sampleSnap 0 [107] 15 = [zeroValueStruct, put10, zeroValueStruct] \<and>
   getValue sampleDeps sampleSnap 0 [107] 15 = Done (put10, [1])"
proof -
  have po: "probeOrder sampleDeps sampleSnap 0 [107] 15 = [zeroValueStruct, put10, zeroValueStruct]"
    by (simp add: probeOrder_sample put10_def put20_def del30_def)
  have fv: "firstValid sampleDeps [zeroValueStruct, put10, zeroValueStruct] = put10"
    by (simp add: firstValid_def sampleDeps_def zeroValueStruct_def put10_def)
  have ha: "hintsAfter sampleDeps sampleSnap 0 [107] 15 = [1]"
    by (simp add: hintsAfter_def probeSplitting_def sampleDeps_def sampleSnap_def sampleActive_def)
  show ?thesis
    using getValue_probes_in_order [OF snapOK_sample, of 15] snapOK_sample po fv ha by simp
qed

text \<open>
  C4: \<open>Get\<close> with version 0 is \<open>Get\<close> with \<open>MaxUint64\<close>, in result and in the state of the
  snapshot, and so is \<open>MultiGet\<close>.
\<close>

theorem version_zero_reads_at_max:
  "Get d s cf key 0 = Get d s cf key MaxUint64 \<and>
   MultiGet d s cf keys 0 = MultiGet d s cf keys MaxUint64"
  by (simp add: Get_def MultiGet_def)

text \<open>
  C5: when \<open>y.ValueStruct{}\<close>, the record with nil slices that \<open>getValue\<close> answers when it
  finds nothing, is not valid, \<open>Get\<close> answers \<open>ErrKeyNotFound\<close> exactly when no source yields
  a valid record or the first valid record in probe order is deleted; otherwise it answers the
  item with the key asked for and the version, meta byte, user meta and value of that record.
  A stored record is never confused with the zero value unless it is that very value: one with
  meta byte 0 and an empty, not nil, value is a record of its own.
\<close>

theorem Get_KeyNotFound_iff:
  assumes ok: "snapOK d s cf key" and z: "\<not> Valid d zeroValueStruct"
  shows "((\<exists>s'. Get d s cf key ver0 = Done (Inl ErrKeyNotFound, s')) \<longleftrightarrow>
            (find (Valid d) (probeOrder d s cf key (if ver0 = 0 then MaxUint64 else ver0)) = None \<or>
             (\<exists>v. find (Valid d) (probeOrder d s cf key (if ver0 = 0 then MaxUint64 else ver0)) = Some v \<and>
                  IsDeleted d (Meta v)))) \<and>
         (\<forall>v. find (Valid d) (probeOrder d s cf key (if ver0 = 0 then MaxUint64 else ver0)) = Some v \<and>
              \<not> IsDeleted d (Meta v) \<longrightarrow>
              (\<exists>s'. Get d s cf key ver0 =
                      Done (Inr \<lparr>item_key = key, item_ver = Version v, item_meta = Meta v,
                                 item_userMeta = UserMeta v, item_val = Value v\<rparr>, s')))"
  using Get_NotFound_cases [OF ok z, of ver0]
  by (cases "find (Valid d) (probeOrder d s cf key (if ver0 = 0 then MaxUint64 else ver0))")
     (auto split: if_splits)

theorem Get_KeyNotFound_iff_witness:
  "snapOK sampleDeps sampleSnap 0 [107] \<and> \<not> Valid sampleDeps zeroValueStruct \<and>
   (\<exists>s'. Get sampleDeps sampleSnap 0 [107] 25 =
           Done (Inr \<lparr>item_key = [107], item_ver = 20, item_meta = 2,
                      item_userMeta = Some [], item_val = Some [118, 50, 48]\<rparr>, s')) \<and>
   (\<exists>s'. Get sampleDeps sampleSnap 0 [107] 35 = Done (Inl ErrKeyNotFound, s')) \<and>
   (\<exists>s'. Get sampleDeps sampleSnap 0 [108] 35 = Done (Inl ErrKeyNotFound, s')) \<and>
   snapOK sampleDeps emptyValueSnap 0 [109] \<and>
   (\<exists>s'. Get sampleDeps emptyValueSnap 0 [109] 0 =
           Done (Inr \<lparr>item_key = [109], item_ver = 0, item_meta = 0,
                      item_userMeta = Some [], item_val = Some []\<rparr>, s'))"
proof -
  have z: "\<not> Valid sampleDeps zeroValueStruct"
    by (simp add: sampleDeps_def zeroValueStruct_def)
  have ok8: "snapOK sampleDeps sampleSnap 0 [108]"
    by (simp add: snapOK_def sampleDeps_def sampleSnap_def sampleShard_def sampleActive_def
        sampleSealed_def sampleOlder_def)
  have ok9: "snapOK sampleDeps emptyValueSnap 0 [109]"
    by (simp add: snapOK_def sampleDeps_def emptyValueSnap_def sampleSnap_def sampleShard_def)
  have f25: "find (Valid sampleDeps) (probeOrder sampleDeps sampleSnap 0 [107] (if (25::uint64) = 0 then MaxUint64 else 25)) = Some put20"
    by (subst probeOrder_sample) (simp add: put10_def put20_def del30_def sampleDeps_def)
  have f35: "find (Valid sampleDeps) (probeOrder sampleDeps sampleSnap 0 [107] (if (35::uint64) = 0 then MaxUint64 else 35)) = Some del30"
    by (subst probeOrder_sample) (simp add: put10_def put20_def del30_def sampleDeps_def)
  have f8: "find (Valid sampleDeps) (probeOrder sampleDeps sampleSnap 0 [108] (if (35::uint64) = 0 then MaxUint64 else 35)) = None"
    by (simp add: probeOrder_def sampleDeps_def sampleSnap_def sampleShard_def sampleActive_def
        sampleSealed_def sampleOlder_def zeroValueStruct_def)
  have f9: "find (Valid sampleDeps) (probeOrder sampleDeps emptyValueSnap 0 [109] (if (0::uint64) = 0 then MaxUint64 else 0)) = Some storedEmpty"
    by (simp add: probeOrder_def sampleDeps_def emptyValueSnap_def sampleSnap_def sampleShard_def
        storedEmpty_def MaxUint64_def)
  have d: "IsDeleted sampleDeps (Meta del30)" "\<not> IsDeleted sampleDeps (Meta put20)"
    "\<not> IsDeleted sampleDeps (Meta storedEmpty)"
    by (simp_all add: sampleDeps_def del30_def put20_def storedEmpty_def)
  have v: "Version put20 = 20" "Meta put20 = 2" "UserMeta put20 = Some []"
    "Value put20 = Some [118, 50, 48]"
    by (simp_all add: put20_def)
  have w: "Version storedEmpty = 0" "Meta storedEmpty = 0" "UserMeta storedEmpty = Some []"
    "Value storedEmpty = Some []"
    by (simp_all add: storedEmpty_def)
  have r9: "\<exists>s'. Get sampleDeps emptyValueSnap 0 [109] 0 =
           Done (Inr \<lparr>item_key = [109], item_ver = 0, item_meta = 0,
                      item_userMeta = Some [], item_val = Some []\<rparr>, s')"
    using Get_KeyNotFound_iff [OF ok9 z, of 0] f9 d(3) w by simp
  show ?thesis
    using Get_KeyNotFound_iff [OF snapOK_sample z, of 25] Get_KeyNotFound_iff [OF snapOK_sample z, of 35]
      Get_KeyNotFound_iff [OF ok8 z, of 35] snapOK_sample z f25 f35 f8 d v ok9 r9
    by (simp del: One_nat_def)
qed

section \<open>Trigger flush: facts\<close>

lemma flushLoop_eq:
  assumes "nat i < length mems \<or> i \<le> 0"
  shows "flushLoop sh mems i ch = Done (ch @ map (taskFor sh) (rev (take (nat i) (tl mems))))"
  using assms
proof (induction sh mems i ch rule: flushLoop.induct)
  case (1 sh mems i ch)
  show ?case
  proof (cases "i > 0")
    case False
    then show ?thesis by (subst flushLoop.simps) simp
  next
    case True
    then have lt: "nat i < length mems" using "1.prems" by auto
    have nat_i: "nat i = Suc (nat (i - 1))" using True by simp
    have len_tl: "nat (i - 1) < length (tl mems)" using lt True by simp
    have nth: "tl mems ! nat (i - 1) = mems ! nat i"
      using lt nat_i by (simp add: nth_tl)
    have tk: "take (nat i) (tl mems) = take (nat (i - 1)) (tl mems) @ [mems ! nat i]"
      unfolding nat_i using take_Suc_conv_app_nth [OF len_tl] nth nat_i by simp
    have IH: "flushLoop sh mems (i - 1) (ch @ [taskFor sh (mems ! nat i)]) =
          Done ((ch @ [taskFor sh (mems ! nat i)]) @ map (taskFor sh) (rev (take (nat (i - 1)) (tl mems))))"
    proof -
      have "nat (i - 1) < length mems \<or> i - 1 \<le> 0" using lt True by linarith
      from "1.IH" [OF True lt this] show ?thesis .
    qed
    have "flushLoop sh mems i ch = flushLoop sh mems (i - 1) (ch @ [taskFor sh (mems ! nat i)])"
      using True lt by (subst flushLoop.simps) simp
    then show ?thesis unfolding IH tk by simp
  qed
qed

lemma flushLoop_skip:
  assumes "0 \<le> skipCnt"
  shows "flushLoop sh mems (int (length mems) - skipCnt - 1) ch =
           Done (ch @ map (taskFor sh) (codeFlushOrder mems skipCnt))"
proof -
  let ?i = "int (length mems) - skipCnt - 1"
  have "nat ?i < length mems \<or> ?i \<le> 0" using assms by auto
  moreover have "nat ?i = length (tl mems) - nat skipCnt" using assms by auto
  ultimately show ?thesis by (simp add: flushLoop_eq codeFlushOrder_def)
qed

lemma TriggerFlush_eq:
  assumes skip: "0 \<le> skipCnt" and n: "0 \<le> numCFs en"
  shows "TriggerFlush d en sh skipCnt =
           (if (case memTbls sh of [m] \<Rightarrow> Table_Empty d m | _ \<Rightarrow> False) \<and> \<not> initialFlushed sh
            then Done (en\<lparr>flushCh := flushCh en @ map (taskFor sh) (codeFlushOrder (memTbls sh) skipCnt)
                                       @ [placeholder d en sh]\<rparr>,
                       snd (allocCommitTS d sh))
            else Done (en\<lparr>flushCh := flushCh en @ map (taskFor sh) (codeFlushOrder (memTbls sh) skipCnt)\<rparr>,
                       sh))"
  using n
  by (simp add: TriggerFlush_def Let_def flushLoop_skip [OF skip] NewCFTable_def placeholder_def
        Table_SetVersion_def split_beta)

lemma codeFlushOrder_single: "codeFlushOrder [m] skipCnt = []"
  by (simp add: codeFlushOrder_def)

lemma set_codeFlushOrder: "set (codeFlushOrder mems skipCnt) \<subseteq> set (tl mems)"
  by (simp add: codeFlushOrder_def set_take_subset)

lemma codeFlushOrder_by_index:
  "codeFlushOrder mems skipCnt = map ((!) mems) (rev [1 ..< length mems - nat skipCnt])"
proof -
  let ?n = "length (tl mems) - nat skipCnt"
  have le: "?n \<le> length (tl mems)" by simp
  have "take ?n (tl mems) = map ((!) (tl mems)) [0 ..< ?n]"
    using le by (intro nth_equalityI) simp_all
  also have "\<dots> = map (\<lambda>i. mems ! Suc i) [0 ..< ?n]"
    using le by (auto simp: nth_tl)
  also have "\<dots> = map ((!) mems) (map Suc [0 ..< ?n])" by simp
  also have "map Suc [0 ..< ?n] = [1 ..< Suc ?n]"
    by (simp only: map_Suc_upt One_nat_def)
  also have "[1 ..< Suc ?n] = [1 ..< length mems - nat skipCnt]"
  proof (cases "nat skipCnt < length mems")
    case True
    then have "Suc ?n = length mems - nat skipCnt" by simp
    then show ?thesis by simp
  next
    case False
    then have "?n = 0" "length mems - nat skipCnt = 0" by simp_all
    then show ?thesis by simp
  qed
  finally show ?thesis by (simp add: codeFlushOrder_def rev_map)
qed

lemma placeholder_is_new_table:
  assumes "NewCFTable d (numCFs en) = Done memTbl"
  shows "placeholder d en sh = taskFor sh (Table_SetVersion memTbl (fst (allocCommitTS d sh)))"
  using assms
  by (auto simp: NewCFTable_def placeholder_def Table_SetVersion_def split: if_splits)

lemma allEmpty_replicate: "sklEmpty d x \<Longrightarrow> allEmpty d (replicate n x)"
  by (induction n) simp_all

lemma placeholder_is_empty:
  assumes "sklEmpty d (newSkiplist d)"
  shows "Table_Empty d (task_tbl (placeholder d en sh))"
  using assms by (simp add: placeholder_def taskFor_def Table_Empty_def allEmpty_replicate)

text \<open>
  C3 as stated fails: with two immutable memtables and \<open>skipCnt = 1\<close> the loop enqueues the
  one at index 1, the most recently sealed, and leaves out the one sealed earlier.
\<close>

theorem specFlushOrder_counterexample:
  "TriggerFlush sampleDeps sampleEngine sampleShard 1 =
     Done (sampleEngine\<lparr>flushCh := [taskFor sampleShard sampleSealed]\<rparr>, sampleShard) \<and>
   specFlushOrder (memTbls sampleShard) 1 = [sampleOlder] \<and>
   sampleSealed \<noteq> sampleOlder"
proof -
  have n: "(0::int) \<le> 1" "0 \<le> numCFs sampleEngine" by (simp_all add: sampleEngine_def)
  have c: "codeFlushOrder (memTbls sampleShard) 1 = [sampleSealed]"
    by (simp add: codeFlushOrder_def sampleShard_def)
  have "TriggerFlush sampleDeps sampleEngine sampleShard 1 =
     Done (sampleEngine\<lparr>flushCh := [taskFor sampleShard sampleSealed]\<rparr>, sampleShard)"
    unfolding TriggerFlush_eq [OF n] c
    by (simp add: sampleShard_def sampleEngine_def)
  moreover have "specFlushOrder (memTbls sampleShard) 1 = [sampleOlder]"
    by (simp add: specFlushOrder_def sampleShard_def)
  moreover have "sampleSealed \<noteq> sampleOlder"
    by (simp add: sampleSealed_def sampleOlder_def)
  ultimately show ?thesis by simp
qed

text \<open>
  C3 amended: for \<open>skipCnt\<close> not negative, \<open>TriggerFlush\<close> enqueues the immutable memtables
  without the \<open>skipCnt\<close> at the highest indices (the ones sealed earliest), by falling index,
  that is \<open>tables[k - skipCnt], ..., tables[1]\<close>, and after them the placeholder of C6 when
  the shard calls for it.
\<close>

theorem TriggerFlush_skips_earliest_sealed:
  assumes "0 \<le> skipCnt" and "0 \<le> numCFs en"
  shows "(\<exists>en' sh'. TriggerFlush d en sh skipCnt = Done (en', sh') \<and>
           flushCh en' =
             flushCh en @ map (taskFor sh) (codeFlushOrder (memTbls sh) skipCnt)
               @ (if (case memTbls sh of [m] \<Rightarrow> Table_Empty d m | _ \<Rightarrow> False) \<and> \<not> initialFlushed sh
                  then [placeholder d en sh] else [])) \<and>
         codeFlushOrder (memTbls sh) skipCnt =
           map ((!) (memTbls sh)) (rev [1 ..< length (memTbls sh) - nat skipCnt])"
  unfolding TriggerFlush_eq [OF assms]
  using codeFlushOrder_by_index [of "memTbls sh" skipCnt] by simp

theorem TriggerFlush_skips_earliest_sealed_witness:
  "(0::int) \<le> 1 \<and> 0 \<le> numCFs sampleEngine \<and>
   codeFlushOrder (memTbls sampleShard) 0 = [sampleOlder, sampleSealed] \<and>
   codeFlushOrder (memTbls sampleShard) 1 = [sampleSealed] \<and>
   (\<exists>en' sh'. TriggerFlush sampleDeps sampleEngine sampleShard 1 = Done (en', sh') \<and>
        flushCh en' = [taskFor sampleShard sampleSealed])"
proof -
  have n: "(0::int) \<le> 1" "0 \<le> numCFs sampleEngine" by (simp_all add: sampleEngine_def)
  have c0: "codeFlushOrder (memTbls sampleShard) 0 = [sampleOlder, sampleSealed]"
    by (simp add: codeFlushOrder_def sampleShard_def)
  have c: "codeFlushOrder (memTbls sampleShard) 1 = [sampleSealed]"
    by (simp add: codeFlushOrder_def sampleShard_def)
  have m: "memTbls sampleShard = [sampleActive, sampleSealed, sampleOlder]"
    "flushCh sampleEngine = []"
    by (simp_all add: sampleShard_def sampleEngine_def)
  show ?thesis
    using TriggerFlush_skips_earliest_sealed [OF n, of sampleDeps sampleShard] n c0 c
    unfolding m by simp
qed

text \<open>
  C6: on a shard whose memtable slice is one empty memtable, \<open>TriggerFlush\<close> enqueues the
  placeholder (the table of \<open>NewCFTable\<close> with the commit version just allocated) exactly when
  the shard has not had its initial flush; in every other state of the shard it enqueues only
  memtables of the slice and allocates no commit version.
\<close>

theorem placeholder_iff_not_initialFlushed:
  assumes "0 \<le> skipCnt" and "0 \<le> numCFs en"
  shows "(memTbls sh = [m] \<and> Table_Empty d m \<longrightarrow>
            TriggerFlush d en sh skipCnt =
              (if initialFlushed sh then Done (en, sh)
               else Done (en\<lparr>flushCh := flushCh en @ [placeholder d en sh]\<rparr>,
                          snd (allocCommitTS d sh)))) \<and>
         (\<not> (case memTbls sh of [m] \<Rightarrow> Table_Empty d m | _ \<Rightarrow> False) \<longrightarrow>
            TriggerFlush d en sh skipCnt =
              Done (en\<lparr>flushCh := flushCh en @ map (taskFor sh) (codeFlushOrder (memTbls sh) skipCnt)\<rparr>,
                    sh) \<and>
            set (codeFlushOrder (memTbls sh) skipCnt) \<subseteq> set (tl (memTbls sh)))"
  unfolding TriggerFlush_eq [OF assms]
  using set_codeFlushOrder [of "memTbls sh" skipCnt]
  by (auto simp: codeFlushOrder_single)

theorem placeholder_iff_not_initialFlushed_witness:
  "(0::int) \<le> 0 \<and> 0 \<le> numCFs sampleEngine \<and>
   memTbls freshShard = [freshTable] \<and> Table_Empty sampleDeps freshTable \<and>
   TriggerFlush sampleDeps sampleEngine freshShard 0 =
     Done (sampleEngine\<lparr>flushCh :=
             [\<lparr>task_shard = (2, 1),
               task_tbl = \<lparr>skls = [ [] ], tbl_version = 7, flushing = 0\<rparr>\<rparr>]\<rparr>, freshShard) \<and>
   TriggerFlush sampleDeps sampleEngine (freshShard\<lparr>initialFlushed := True\<rparr>) 0 =
     Done (sampleEngine, freshShard\<lparr>initialFlushed := True\<rparr>)"
proof -
  have n: "(0::int) \<le> 0" "0 \<le> numCFs sampleEngine" by (simp_all add: sampleEngine_def)
  have m: "memTbls freshShard = [freshTable]" "memTbls (freshShard\<lparr>initialFlushed := True\<rparr>) = [freshTable]"
    by (simp_all add: freshShard_def)
  have e: "Table_Empty sampleDeps freshTable"
    by (simp add: Table_Empty_def freshTable_def sampleDeps_def)
  have i: "\<not> initialFlushed freshShard" "initialFlushed (freshShard\<lparr>initialFlushed := True\<rparr>)"
    by (simp_all add: freshShard_def)
  have p: "placeholder sampleDeps sampleEngine freshShard =
            \<lparr>task_shard = (2, 1), task_tbl = \<lparr>skls = [ [] ], tbl_version = 7, flushing = 0\<rparr>\<rparr>"
    by (simp add: placeholder_def taskFor_def sampleDeps_def sampleEngine_def freshShard_def)
  have a: "snd (allocCommitTS sampleDeps freshShard) = freshShard" "flushCh sampleEngine = []"
    by (simp_all add: sampleDeps_def sampleEngine_def)
  show ?thesis
    using placeholder_iff_not_initialFlushed [OF n, of freshShard freshTable sampleDeps]
      placeholder_iff_not_initialFlushed [OF n, of "freshShard\<lparr>initialFlushed := True\<rparr>" freshTable sampleDeps]
      n m e i p a by simp
qed

section \<open>Id allocators: facts\<close>

lemma unat_add_no_wrap:
  fixes a :: uint64
  assumes "unat a + n < 2 ^ 64"
  shows "unat (a + word_of_nat n) = unat a + n"
proof -
  have n: "n < 2 ^ 64" using assms by linarith
  have "unat (word_of_nat n :: uint64) = n"
    by (rule of_nat_inverse [OF refl]) (use n in simp)
  then show ?thesis using assms unat_add_lem [of a "word_of_nat n"] by simp
qed

lemma run_from_base:
  fixes b :: uint64
  assumes "unat b + k \<le> 2 ^ 64"
  shows "map unat (map (\<lambda>i. b + word_of_nat i) [0 ..< k]) = [unat b ..< unat b + k]"
proof -
  have "unat (b + word_of_nat i) = unat b + i" if "i < k" for i
    using that assms by (intro unat_add_no_wrap) simp
  then have "map unat (map (\<lambda>i. b + word_of_nat i) [0 ..< k]) = map (\<lambda>i. unat b + i) [0 ..< k]"
    by simp
  also have "\<dots> = [unat b ..< unat b + k]"
    by (simp add: map_add_upt add.commute)
  finally show ?thesis .
qed

lemma word_of_int_pos:
  assumes "0 \<le> c"
  shows "(word_of_int c :: uint64) = word_of_nat (nat c)"
  using assms by (rule word_of_int_nat)

lemma run_step:
  fixes a :: uint64
  assumes pos: "0 < c" and nowrap: "int (unat a) + c < 2 ^ 64"
  shows "map unat (runOf (a + word_of_int c) c) = [unat a + 1 ..< unat a + 1 + nat c]"
    and "unat (a + word_of_int c) = unat a + nat c"
proof -
  have "int (unat a + nat c) = int (unat a) + c" using pos by simp
  then have "int (unat a + nat c) < int (2 ^ 64)" using nowrap by simp
  then have nw: "unat a + nat c < 2 ^ 64" by (simp only: of_nat_less_iff)
  have c: "(word_of_int c :: uint64) = word_of_nat (nat c)"
    using pos by (intro word_of_int_pos) simp
  have base: "a + word_of_int c - word_of_int (c - 1) = a + 1"
    by (simp add: word_of_int_hom_syms)
  have one: "unat a + 1 < 2 ^ 64" using nw pos by linarith
  have ub: "unat (a + 1) = unat a + 1"
    using unat_add_no_wrap [OF one] by simp
  have le: "unat (a + 1) + nat c \<le> 2 ^ 64" unfolding ub using nw by linarith
  show "map unat (runOf (a + word_of_int c) c) = [unat a + 1 ..< unat a + 1 + nat c]"
    using run_from_base [OF le] unfolding runOf_def base ub .
  show "unat (a + word_of_int c) = unat a + nat c"
    unfolding c using nw by (rule unat_add_no_wrap)
qed

lemma sum_list_pos_nonneg:
  fixes cs :: "int list"
  shows "list_all (\<lambda>c. 0 < c) cs \<Longrightarrow> 0 \<le> sum_list cs"
  by (induction cs) auto

lemma allocRuns_upt:
  assumes "list_all (\<lambda>c. 0 < c) counts"
    and "int (unat (latest l)) + sum_list counts < 2 ^ 64"
  shows "map unat (concat (allocRuns l counts)) =
           [unat (latest l) + 1 ..< unat (latest l) + 1 + nat (sum_list counts)]"
  using assms
proof (induction counts arbitrary: l)
  case Nil
  then show ?case by simp
next
  case (Cons c cs)
  have pos: "0 < c" and rest: "list_all (\<lambda>c. 0 < c) cs" using Cons.prems(1) by simp_all
  have nonneg: "0 \<le> sum_list cs" using rest by (rule sum_list_pos_nonneg)
  have nw: "int (unat (latest l)) + c < 2 ^ 64" using Cons.prems(2) nonneg by simp
  let ?l' = "l\<lparr>latest := latest l + word_of_int c\<rparr>"
  let ?a = "unat (latest l)"
  have st: "unat (latest ?l') = ?a + nat c"
    using run_step(2) [OF pos nw] by simp
  have "int (?a + nat c) = int ?a + c" using pos by simp
  then have nw': "int (unat (latest ?l')) + sum_list cs < 2 ^ 64"
    using Cons.prems(2) unfolding st by simp
  have IH: "map unat (concat (allocRuns ?l' cs)) =
           [?a + nat c + 1 ..< ?a + nat c + 1 + nat (sum_list cs)]"
    using Cons.IH [OF rest nw'] unfolding st .
  have sum: "nat (sum_list (c # cs)) = nat c + nat (sum_list cs)"
    using pos nonneg by (simp add: nat_add_distrib)
  have step: "allocRuns l (c # cs) = runOf (latest l + word_of_int c) c # allocRuns ?l' cs"
    by (simp add: AllocID_def Let_def)
  have "map unat (concat (allocRuns l (c # cs))) =
          map unat (runOf (latest l + word_of_int c) c) @ map unat (concat (allocRuns ?l' cs))"
    unfolding step by simp
  also have "\<dots> = [?a + 1 ..< ?a + 1 + nat c] @ [?a + nat c + 1 ..< ?a + nat c + 1 + nat (sum_list cs)]"
    unfolding IH run_step(1) [OF pos nw] ..
  also have "\<dots> = [?a + 1 ..< ?a + 1 + nat c] @ [?a + 1 + nat c ..< ?a + 1 + nat c + nat (sum_list cs)]"
    by (simp only: add.commute add.left_commute)
  also have "\<dots> = [?a + 1 ..< ?a + 1 + nat c + nat (sum_list cs)]"
    by (rule upt_add_eq_append [symmetric]) simp
  finally show ?case unfolding sum by (simp only: add.assoc)
qed

lemma sorted_wrt_unat:
  fixes xs :: "uint64 list"
  shows "sorted_wrt (<) (map unat xs) = sorted_wrt (<) xs"
  by (simp add: sorted_wrt_map word_less_nat_alt [symmetric])

lemma distinct_unat:
  fixes xs :: "uint64 list"
  shows "distinct (map unat xs) = distinct xs"
  by (simp add: distinct_map inj_on_def word_unat_eq_iff [symmetric])

lemma allocRuns_increasing:
  assumes "list_all (\<lambda>c. 0 < c) counts"
    and "int (unat (latest l)) + sum_list counts < 2 ^ 64"
  shows "sorted_wrt (<) (concat (allocRuns l counts))"
    and "distinct (concat (allocRuns l counts))"
proof -
  have m: "map unat (concat (allocRuns l counts)) =
           [unat (latest l) + 1 ..< unat (latest l) + 1 + nat (sum_list counts)]"
    using assms by (rule allocRuns_upt)
  have "sorted_wrt (<) (map unat (concat (allocRuns l counts)))"
    unfolding m by (rule sorted_wrt_upt)
  then show "sorted_wrt (<) (concat (allocRuns l counts))"
    by (simp only: sorted_wrt_unat)
  have "distinct (map unat (concat (allocRuns l counts)))"
    unfolding m by (rule distinct_upt)
  then show "distinct (concat (allocRuns l counts))"
    by (simp only: distinct_unat)
qed

lemma allocSeq_bounds:
  assumes "list_all (\<lambda>c. 0 < c) counts"
    and "int (unat (latest l)) + sum_list counts < 2 ^ 64"
  shows "sorted_wrt (<) (allocSeq l counts) \<and> (\<forall>r \<in> set (allocSeq l counts). latest l < r)"
  using assms
proof (induction counts arbitrary: l)
  case Nil
  then show ?case by simp
next
  case (Cons c cs)
  have pos: "0 < c" and rest: "list_all (\<lambda>c. 0 < c) cs" using Cons.prems(1) by simp_all
  have nonneg: "0 \<le> sum_list cs" using rest by (rule sum_list_pos_nonneg)
  have nw: "int (unat (latest l)) + c < 2 ^ 64" using Cons.prems(2) nonneg by simp
  let ?l' = "l\<lparr>latest := latest l + word_of_int c\<rparr>"
  let ?a = "unat (latest l)"
  have st: "unat (latest ?l') = ?a + nat c"
    using run_step(2) [OF pos nw] by simp
  have "int (?a + nat c) = int ?a + c" using pos by simp
  then have nw': "int (unat (latest ?l')) + sum_list cs < 2 ^ 64"
    using Cons.prems(2) unfolding st by simp
  have IH: "sorted_wrt (<) (allocSeq ?l' cs)" "\<forall>r \<in> set (allocSeq ?l' cs). latest ?l' < r"
    using Cons.IH [OF rest nw'] by simp_all
  have lt: "latest l < latest ?l'"
    unfolding word_less_nat_alt st using pos by simp
  have seq: "allocSeq l (c # cs) = latest ?l' # allocSeq ?l' cs"
    by (simp add: AllocID_def Let_def)
  have "\<forall>r \<in> set (allocSeq ?l' cs). latest l < r"
    using IH(2) lt by (meson less_trans)
  then show ?case
    unfolding seq using IH lt by simp
qed

lemma AllocIDs_runOf:
  assumes "0 \<le> n" and "n \<le> makeLimit"
  shows "AllocIDs makeLimit rm n =
           Done (runOf (rm_id rm + word_of_int n) n, rm\<lparr>rm_id := rm_id rm + word_of_int n\<rparr>)"
  using assms by (simp add: AllocIDs_def runOf_def Let_def)

lemma AllocIDs_beyond_limit: "makeLimit < n \<Longrightarrow> AllocIDs makeLimit rm n = Panic"
  by (simp add: AllocIDs_def Let_def)

lemma allocIDsSeq_runs:
  assumes "list_all (\<lambda>c. 0 < c) counts" and "list_all (\<lambda>c. c \<le> makeLimit) counts"
  shows "allocIDsSeq makeLimit rm counts = Done (allocRuns \<lparr>latest = rm_id rm\<rparr> counts)"
  using assms
proof (induction counts arbitrary: rm)
  case Nil
  then show ?case by simp
next
  case (Cons c cs)
  have pos: "0 \<le> c" and rest: "list_all (\<lambda>c. 0 < c) cs" using Cons.prems(1) by simp_all
  have lim: "c \<le> makeLimit" and rest': "list_all (\<lambda>c. c \<le> makeLimit) cs"
    using Cons.prems(2) by simp_all
  show ?case
    using Cons.IH [OF rest rest', of "rm\<lparr>rm_id := rm_id rm + word_of_int c\<rparr>"]
    by (simp add: AllocIDs_runOf [OF pos lim] AllocID_def Let_def)
qed

lemma allocIDsSeq_Done_within_limit:
  "allocIDsSeq makeLimit rm counts = Done runs \<Longrightarrow> list_all (\<lambda>c. c \<le> makeLimit) counts"
proof (induction counts arbitrary: rm runs)
  case Nil
  then show ?case by simp
next
  case (Cons c cs)
  have c: "c \<le> makeLimit"
    using Cons.prems AllocIDs_beyond_limit [of makeLimit c rm] by (cases "makeLimit < c") auto
  obtain ids rm' runs' where "allocIDsSeq makeLimit rm' cs = Done runs'"
    using Cons.prems by (auto split: outcome.splits)
  then have "list_all (\<lambda>c. c \<le> makeLimit) cs" by (rule Cons.IH)
  then show ?case using c by simp
qed

lemma distinct_concat_disjoint:
  "distinct (concat xs) \<Longrightarrow> i < j \<Longrightarrow> j < length xs \<Longrightarrow> set (xs ! i) \<inter> set (xs ! j) = {}"
proof (induction xs arbitrary: i j)
  case Nil
  then show ?case by simp
next
  case (Cons x xs)
  from Cons.prems(2) obtain j' where j: "j = Suc j'" by (cases j) auto
  have d: "distinct (concat xs)" and dis: "set x \<inter> set (concat xs) = {}"
    using Cons.prems(1) by auto
  show ?case
  proof (cases i)
    case 0
    have "xs ! j' \<in> set xs" using Cons.prems(3) j by simp
    then have "set (xs ! j') \<subseteq> set (concat xs)" by auto
    then show ?thesis using dis 0 j by auto
  next
    case (Suc i')
    then show ?thesis using Cons.IH [OF d, of i' j'] Cons.prems j by simp
  qed
qed

text \<open>
  C7 as stated fails: the counter has 64 bits and wraps. Three calls of \<open>AllocID\<close> with the
  count \<open>2^63 - 1\<close> on a new allocator return ids that are not increasing, and the id
  \<open>2^63 - 3\<close> lies in the run of the first call and is the last id of the run of the third.
\<close>

theorem alloc_wraps_counterexample:
  "allocSeq \<lparr>latest = 0\<rparr> [9223372036854775807, 9223372036854775807, 9223372036854775807]
     = [9223372036854775807, 18446744073709551614, 9223372036854775805] \<and>
   \<not> sorted_wrt (<) (allocSeq \<lparr>latest = 0\<rparr>
        [9223372036854775807, 9223372036854775807, 9223372036854775807]) \<and>
   allocRuns \<lparr>latest = 0\<rparr> [9223372036854775807, 9223372036854775807, 9223372036854775807]
     = [runOf 9223372036854775807 9223372036854775807,
        runOf 18446744073709551614 9223372036854775807,
        runOf 9223372036854775805 9223372036854775807] \<and>
   runOf 9223372036854775807 9223372036854775807 ! 9223372036854775804 = 9223372036854775805 \<and>
   runOf 9223372036854775805 9223372036854775807 ! 9223372036854775806 = 9223372036854775805"
proof -
  have s: "allocSeq \<lparr>latest = 0\<rparr> [9223372036854775807, 9223372036854775807, 9223372036854775807]
     = [9223372036854775807, 18446744073709551614, 9223372036854775805]"
    by (simp add: AllocID_def Let_def)
  have n: "\<not> sorted_wrt (<) [9223372036854775807, 18446744073709551614, 9223372036854775805 :: uint64]"
    by simp
  have r: "allocRuns \<lparr>latest = 0\<rparr> [9223372036854775807, 9223372036854775807, 9223372036854775807]
     = [runOf 9223372036854775807 9223372036854775807,
        runOf 18446744073709551614 9223372036854775807,
        runOf 9223372036854775805 9223372036854775807]"
  proof -
    have e: "(27670116110564327421 :: uint64) = 9223372036854775805" by simp
    show ?thesis by (simp add: AllocID_def Let_def e)
  qed
  have nth: "runOf r c ! i = r - word_of_int (c - 1) + word_of_nat i" if "i < nat c" for r c i
    using that by (simp add: runOf_def)
  have a: "runOf 9223372036854775807 9223372036854775807 ! 9223372036854775804 = 9223372036854775805"
    by (subst nth) simp_all
  have b: "runOf 9223372036854775805 9223372036854775807 ! 9223372036854775806 = 9223372036854775805"
    by (subst nth) simp_all
  show ?thesis using s n r a b by simp
qed

text \<open>
  C7 amended: for calls with positive counts whose sum, added to the counter, stays below
  \<open>2^64\<close>, the ids returned are strictly increasing, the runs taken together are the ids
  after the old counter in rising order without gap or repetition, so the runs are pairwise
  disjoint; \<open>MockRegionManager.AllocIDs\<close> returns these very runs when every count is a
  length \<open>make\<close> can allocate, and whenever its calls all return, these runs are what they
  return.
\<close>

theorem ids_unique_until_wrap:
  assumes pos: "list_all (\<lambda>c. 0 < c) counts"
    and nowrap: "int (unat (latest l)) + sum_list counts < 2 ^ 64"
    and same: "rm_id rm = latest l"
  shows "sorted_wrt (<) (allocSeq l counts) \<and>
         map unat (concat (allocRuns l counts)) =
           [unat (latest l) + 1 ..< unat (latest l) + 1 + nat (sum_list counts)] \<and>
         sorted_wrt (<) (concat (allocRuns l counts)) \<and>
         distinct (concat (allocRuns l counts)) \<and>
         (\<forall>i j. i < j \<and> j < length (allocRuns l counts) \<longrightarrow>
            set (allocRuns l counts ! i) \<inter> set (allocRuns l counts ! j) = {}) \<and>
         (list_all (\<lambda>c. c \<le> makeLimit) counts \<longrightarrow>
            allocIDsSeq makeLimit rm counts = Done (allocRuns l counts)) \<and>
         (\<forall>runs. allocIDsSeq makeLimit rm counts = Done runs \<longrightarrow> runs = allocRuns l counts)"
proof -
  have l: "\<lparr>latest = rm_id rm\<rparr> = l" using same by simp
  have d: "distinct (concat (allocRuns l counts))"
    using pos nowrap by (rule allocRuns_increasing(2))
  have within: "allocIDsSeq makeLimit rm counts = Done (allocRuns l counts)"
    if "list_all (\<lambda>c. c \<le> makeLimit) counts"
    using allocIDsSeq_runs [OF pos that, of rm] unfolding l .
  have returned: "runs = allocRuns l counts"
    if r: "allocIDsSeq makeLimit rm counts = Done runs" for runs
    using within [OF allocIDsSeq_Done_within_limit [OF r]] r by simp
  show ?thesis
    using allocSeq_bounds [OF pos nowrap] allocRuns_upt [OF pos nowrap]
      allocRuns_increasing [OF pos nowrap] within returned
      distinct_concat_disjoint [OF d]
    by blast
qed

theorem ids_unique_until_wrap_witness:
  "list_all (\<lambda>c. 0 < c) [2, 3 :: int] \<and>
   int (unat (latest \<lparr>latest = 10\<rparr>)) + sum_list [2, 3] < 2 ^ 64 \<and>
   rm_id \<lparr>rm_id = 10\<rparr> = latest \<lparr>latest = 10\<rparr> \<and>
   allocSeq \<lparr>latest = 10\<rparr> [2, 3] = [12, 15] \<and>
   map unat (concat (allocRuns \<lparr>latest = 10\<rparr> [2, 3])) = [11, 12, 13, 14, 15] \<and>
   distinct (concat (allocRuns \<lparr>latest = 10\<rparr> [2, 3])) \<and>
   list_all (\<lambda>c. c \<le> 35184372088832) [2, 3 :: int] \<and>
   allocIDsSeq 35184372088832 \<lparr>rm_id = 10\<rparr> [2, 3] =
     Done (allocRuns \<lparr>latest = 10\<rparr> [2, 3]) \<and>
   AllocIDs 35184372088832 \<lparr>rm_id = 10\<rparr> 4611686018427387904 = Panic"
proof -
  have lim: "list_all (\<lambda>c. c \<le> 35184372088832) [2, 3 :: int]" by simp
  have beyond: "AllocIDs 35184372088832 \<lparr>rm_id = 10\<rparr> 4611686018427387904 = Panic"
    by (rule AllocIDs_beyond_limit) simp
  have h: "list_all (\<lambda>c. 0 < c) [2, 3 :: int]"
    "int (unat (latest \<lparr>latest = 10\<rparr>)) + sum_list [2, 3] < 2 ^ 64"
    "rm_id \<lparr>rm_id = 10\<rparr> = latest \<lparr>latest = 10\<rparr>"
    by simp_all
  have s: "allocSeq \<lparr>latest = 10\<rparr> [2, 3] = [12, 15]"
    by (simp add: AllocID_def Let_def)
  have u: "[unat (latest \<lparr>latest = 10\<rparr>) + 1 ..< unat (latest \<lparr>latest = 10\<rparr>) + 1 + nat (sum_list [2, 3])]
            = [11, 12, 13, 14, 15]"
    by (simp add: upt_rec)
  note t = ids_unique_until_wrap [OF h, of 35184372088832]
  have m: "map unat (concat (allocRuns \<lparr>latest = 10\<rparr> [2, 3])) = [11, 12, 13, 14, 15]"
    using t u by (elim conjE) (simp only:)
  have d: "distinct (concat (allocRuns \<lparr>latest = 10\<rparr> [2, 3]))"
    using t by (elim conjE)
  have a: "allocIDsSeq 35184372088832 \<lparr>rm_id = 10\<rparr> [2, 3] =
     Done (allocRuns \<lparr>latest = 10\<rparr> [2, 3])"
    using t lim by (elim conjE) (erule mp)
  show ?thesis
    by (intro conjI) (fact h s m d lim a beyond)+
qed


section \<open>Configuration durations: facts\<close>

text \<open>
  C8 as stated fails: \<open>-1s\<close> parses as a duration, and \<open>ParseDuration\<close> aborts on it, because
  it also rejects a negative duration.
\<close>

theorem ParseDuration_negative_counterexample:
  "sampleParse ''-1s'' = Inr (- 1000000000) \<and>
   ParseDuration sampleParse ''-1s'' = Fatal ''invalid duration=-1s''"
  by (simp add: ParseDuration_def sampleParse_def word_sless_alt)

text \<open>
  C8 amended: \<open>ParseDuration\<close> returns the duration when the string parses to one that is not
  negative; when the string does not parse but does with \<open>s\<close> appended, to a duration that is
  not negative, it returns that one; and it aborts exactly when the string parses neither way
  or the duration parsed is negative.
\<close>

theorem ParseDuration_cases:
  "(\<forall>dur. p s = Inr dur \<and> \<not> dur <s 0 \<longrightarrow> ParseDuration p s = Returned dur) \<and>
   (\<forall>err dur. p s = Inl err \<and> p (s @ ''s'') = Inr dur \<and> \<not> dur <s 0 \<longrightarrow>
       ParseDuration p s = Returned dur) \<and>
   ((\<exists>msg. ParseDuration p s = Fatal msg) \<longleftrightarrow>
      ((\<exists>err err'. p s = Inl err \<and> p (s @ ''s'') = Inl err') \<or>
       (\<exists>dur. p s = Inr dur \<and> dur <s 0) \<or>
       (\<exists>err dur. p s = Inl err \<and> p (s @ ''s'') = Inr dur \<and> dur <s 0)))"
  by (auto simp: ParseDuration_def Let_def split: sum.splits if_splits)

theorem ParseDuration_cases_witness:
  "sampleParse ''20s'' = Inr 20000000000 \<and> \<not> (20000000000 :: int64) <s 0 \<and>
   ParseDuration sampleParse ''20s'' = Returned 20000000000 \<and>
   (\<exists>err. sampleParse ''20'' = Inl err) \<and>
   ParseDuration sampleParse ''20'' = Returned 20000000000 \<and>
   (\<exists>err err'. sampleParse ''abc'' = Inl err \<and> sampleParse (''abc'' @ ''s'') = Inl err') \<and>
   (\<exists>msg. ParseDuration sampleParse ''abc'' = Fatal msg)"
proof -
  have a: "sampleParse ''20s'' = Inr 20000000000" "\<not> (20000000000 :: int64) <s 0"
    by (simp_all add: sampleParse_def word_sless_alt)
  have b: "sampleParse ''20'' = Inl (Errorf ''time: invalid duration'')"
       "sampleParse (''20'' @ ''s'') = Inr 20000000000"
    by (simp_all add: sampleParse_def)
  have c: "sampleParse ''abc'' = Inl (Errorf ''time: invalid duration'')"
       "sampleParse (''abc'' @ ''s'') = Inl (Errorf ''time: invalid duration'')"
    by (simp_all add: sampleParse_def)
  have r1: "ParseDuration sampleParse ''20s'' = Returned 20000000000"
    using ParseDuration_cases [of sampleParse "''20s''"] a by simp
  have r2: "ParseDuration sampleParse ''20'' = Returned 20000000000"
    using ParseDuration_cases [of sampleParse "''20''"] a(2) b by simp
  have r3: "\<exists>msg. ParseDuration sampleParse ''abc'' = Fatal msg"
    using ParseDuration_cases [of sampleParse "''abc''"] c by simp
  show ?thesis
    using a b(1) c r1 r2 r3 by simp
qed

end
